theory Spec2Isabelle
  imports Main "HOL-Library.Word" "HOL-Library.Product_Lexorder" "HOL-Library.List_Lexorder"
begin

section \<open>Bytes, Python strings and exceptions\<close>

text \<open>
  A Python \<open>bytes\<close> object is a list of 8-bit words; a Python \<open>str\<close> is a list of
  Unicode code points, so that \<open>len\<close> counts code points as Python does.  Byte strings
  compare as Python compares them: byte by byte, unsigned, a proper prefix first.
\<close>

type_synonym byte = "8 word"
type_synonym pystr = "nat list"

definition str :: "string \<Rightarrow> pystr" where
  "str cs = map of_char cs"

text \<open>
  The exceptions that the converter and the libraries under it raise.  \<open>ValueError\<close>
  carries the message the converter gives it.
\<close>

datatype exn =
    ValueError pystr
  | StructError
  | UnicodeDecodeError
  | UnicodeEncodeError
  | EOFError
  | TProtocolException
  | TypeError pystr
  | KeyError pystr
  | AttributeError
  | RecursionError

text \<open>\<open>xs[a:b]\<close> for \<open>0 \<le> a\<close>: Python clips a slice to the sequence.\<close>

definition bslice :: "'a list \<Rightarrow> nat \<Rightarrow> nat \<Rightarrow> 'a list" where
  "bslice xs a b = take (b - a) (drop a xs)"

definition be_nat :: "byte list \<Rightarrow> nat" where
  "be_nat bs = foldl (\<lambda>acc b. acc * 256 + unat b) 0 bs"

text \<open>\<open>struct.unpack('>I', b)[0]\<close> and \<open>struct.unpack('>B', b)[0]\<close>: the buffer must
  have exactly the size of the format.\<close>

definition unpack_I :: "byte list \<Rightarrow> exn + nat" where
  "unpack_I bs = (if length bs = 4 then Inr (be_nat bs) else Inl StructError)"

definition unpack_B :: "byte list \<Rightarrow> exn + nat" where
  "unpack_B bs = (if length bs = 1 then Inr (be_nat bs) else Inl StructError)"

section \<open>Locating the frame: \<open>parse_data\<close>\<close>

text \<open>The default marker list of \<open>parse_data\<close>, in the order of the source.\<close>

definition default_markers :: "byte list list" where
  "default_markers =
     [[0x80, 0x01],
      [0x82, 0x21],
      [0x80, 0x01, 0x00, 0x01],
      [0x80, 0x01, 0x00, 0x02],
      [0x80, 0x01, 0x00, 0x03],
      [0x80, 0x01, 0x00, 0x04]]"

text \<open>\<open>data.find(sub)\<close>: the lowest index at which \<open>sub\<close> occurs, \<open>None\<close> for Python's -1.\<close>

fun find_bytes :: "byte list \<Rightarrow> byte list \<Rightarrow> nat option" where
  "find_bytes [] sub = (if sub = [] then Some 0 else None)"
| "find_bytes (b # rest) sub =
     (if take (length sub) (b # rest) = sub then Some 0
      else map_option Suc (find_bytes rest sub))"

text \<open>
  The structural attempt of \<open>parse_data\<close> (the block under \<open>if len(data) > 9\<close>).
  \<open>None\<close> stands for falling through to the marker search, which the source does when
  the sanity check fails and, through its bare \<open>except\<close>, when anything in the block raises.
\<close>

definition frugal_split :: "byte list \<Rightarrow> (byte list \<times> byte list) option" where
  "frugal_split data =
     (if length data > 9 then
        (case unpack_I (bslice data 0 4) of
           Inl e \<Rightarrow> None
         | Inr frame_size \<Rightarrow>
             let version = unat (data ! 4) in
             (case unpack_I (bslice data 5 9) of
                Inl e \<Rightarrow> None
              | Inr header_length \<Rightarrow>
                  if 0 < frame_size \<and> frame_size < length data
                     \<and> 0 \<le> version \<and> version \<le> 1
                     \<and> header_length < frame_size
                  then Some (bslice data 0 (9 + header_length),
                             drop (9 + header_length) data)
                  else None))
      else None)"

text \<open>The loop \<open>for marker in markers\<close>: one hit per marker that occurs, in list order.\<close>

fun scan_markers :: "byte list \<Rightarrow> byte list list \<Rightarrow> (nat \<times> byte list) list" where
  "scan_markers data [] = []"
| "scan_markers data (marker # ms) =
     (case find_bytes data marker of
        None \<Rightarrow> scan_markers data ms
      | Some pos \<Rightarrow> (pos, marker) # scan_markers data ms)"

text \<open>The byte-by-byte scan: \<open>for i in range(len(data) - 2)\<close>.\<close>

definition byte_scan :: "byte list \<Rightarrow> (nat \<times> byte list) list" where
  "byte_scan data =
     map (\<lambda>i. (i, bslice data i (i + 2)))
       (filter (\<lambda>i. (data ! i = 0x80 \<and> data ! (i + 1) = 0x01)
                   \<or> (data ! i = 0x82 \<and> data ! (i + 1) = 0x21))
          [0 ..< length data - 2])"

text \<open>
  \<open>marker_positions.sort()\<close> followed by \<open>marker_positions[0]\<close>.  Python sorts the
  tuples \<open>(pos, marker)\<close> by \<open>pos\<close> and then by the bytes of \<open>marker\<close>, which is the
  lexicographic order of pairs used by \<open>sort\<close> here.
\<close>

definition first_marker :: "(nat \<times> byte list) list \<Rightarrow> nat \<times> byte list" where
  "first_marker marker_positions = hd (sort marker_positions)"

definition no_marker_msg :: pystr where
  "no_marker_msg = str ''No Thrift/Frugal marker found in the message''"

text \<open>
  \<open>parse_data\<close>, on the bytes that the base64 decoding of the file gives.  The
  argument \<open>markers\<close> is \<open>None\<close> where the caller leaves the default.
\<close>

definition parse_data ::
  "byte list \<Rightarrow> byte list list option \<Rightarrow> exn + (byte list \<times> byte list)" where
  "parse_data data markers =
     (let markers = (case markers of None \<Rightarrow> default_markers | Some ms \<Rightarrow> ms) in
      case frugal_split data of
        Some r \<Rightarrow> Inr r
      | None \<Rightarrow>
          let marker_positions = scan_markers data markers;
              marker_positions =
                (if marker_positions = [] then byte_scan data else marker_positions)
          in if marker_positions = [] then Inl (ValueError no_marker_msg)
             else let (pos, marker) = first_marker marker_positions
                  in Inr (bslice data 0 pos, drop pos data))"

text \<open>
  The same function with the byte-by-byte scan removed, as the frame locator would be without
  its third step.  It is used only to state that the step changes nothing.
\<close>

definition parse_data_no_fallback ::
  "byte list \<Rightarrow> byte list list option \<Rightarrow> exn + (byte list \<times> byte list)" where
  "parse_data_no_fallback data markers =
     (let markers = (case markers of None \<Rightarrow> default_markers | Some ms \<Rightarrow> ms) in
      case frugal_split data of
        Some r \<Rightarrow> Inr r
      | None \<Rightarrow>
          let marker_positions = scan_markers data markers
          in if marker_positions = [] then Inl (ValueError no_marker_msg)
             else let (pos, marker) = first_marker marker_positions
                  in Inr (bslice data 0 pos, drop pos data))"

section \<open>Properties of the frame locator\<close>

lemma bslice_0: "bslice xs 0 n = take n xs"
  by (simp add: bslice_def)

lemma frugal_split_accept:
  assumes "9 < length data"
    and "0 < be_nat (bslice data 0 4)"
    and "be_nat (bslice data 0 4) < length data"
    and "unat (data ! 4) \<le> 1"
    and "be_nat (bslice data 5 9) < be_nat (bslice data 0 4)"
  shows "frugal_split data =
           Some (take (9 + be_nat (bslice data 5 9)) data,
                 drop (9 + be_nat (bslice data 5 9)) data)"
proof -
  have l1: "length (bslice data 0 4) = 4" and l2: "length (bslice data 5 9) = 4"
    using assms(1) by (simp_all add: bslice_def)
  show ?thesis
    using assms by (simp add: frugal_split_def unpack_I_def l1 l2 Let_def bslice_0)
qed

text \<open>
  C2.  When the buffer has more than nine bytes and the three values read at offsets 0, 4
  and 5 pass the sanity check (frame size positive and below the buffer length, version 0
  or 1, header length below the frame size), \<open>parse_data\<close> returns the buffer split at
  \<open>9 + header_length\<close>, whatever the marker list is.
\<close>

theorem parse_data_structural_split:
  assumes "9 < length data"
    and "0 < be_nat (bslice data 0 4)"
    and "be_nat (bslice data 0 4) < length data"
    and "unat (data ! 4) \<in> {0, 1}"
    and "be_nat (bslice data 5 9) < be_nat (bslice data 0 4)"
  shows "parse_data data markers =
           Inr (take (9 + be_nat (bslice data 5 9)) data,
                drop (9 + be_nat (bslice data 5 9)) data)"
proof -
  from assms(4) have "unat (data ! 4) \<le> 1" by auto
  with assms have "frugal_split data =
      Some (take (9 + be_nat (bslice data 5 9)) data,
            drop (9 + be_nat (bslice data 5 9)) data)"
    by (intro frugal_split_accept) simp_all
  then show ?thesis
    by (simp add: parse_data_def Let_def)
qed

theorem parse_data_structural_split_witness:
  "parse_data [0, 0, 0, 10, 0, 0, 0, 0, 2, 1, 2, 0x80, 1, 3, 4] (Some []) =
     Inr ([0, 0, 0, 10, 0, 0, 0, 0, 2, 1, 2], [0x80, 1, 3, 4])"
  using parse_data_structural_split
          [of "[0, 0, 0, 10, 0, 0, 0, 0, 2, 1, 2, 0x80, 1, 3, 4]" "Some []"]
  by (simp add: bslice_def be_nat_def)

subsection \<open>The marker search\<close>


lemma find_bytes_Some_match:
  "find_bytes data m = Some p \<Longrightarrow> take (length m) (drop p data) = m"
proof (induction data arbitrary: p)
  case Nil then show ?case by (simp split: if_splits)
next
  case (Cons b rest)
  then show ?case by (auto split: if_splits)
qed

lemma find_bytes_None:
  "find_bytes data m = None \<Longrightarrow> take (length m) (drop i data) \<noteq> m"
proof (induction data arbitrary: i)
  case Nil then show ?case by (auto split: if_splits)
next
  case (Cons b rest)
  then show ?case by (cases i) (auto split: if_splits)
qed

lemma set_scan_markers:
  "set (scan_markers data ms) = {(p, m). m \<in> set ms \<and> find_bytes data m = Some p}"
  by (induction ms) (auto split: option.splits)

lemma hd_sorted_Min:
  fixes xs :: "'a::linorder list"
  assumes "sorted xs" and "xs \<noteq> []"
  shows "hd xs = Min (set xs)"
proof (cases xs)
  case Nil with assms show ?thesis by simp
next
  case (Cons x rest)
  with assms(1) have "\<forall>y\<in>set xs. x \<le> y" by auto
  then have "Min (set xs) = x"
    using Cons by (intro Min_eqI) auto
  with Cons show ?thesis by simp
qed

lemma first_marker_Min:
  assumes "mp \<noteq> []"
  shows "first_marker mp = Min (set mp)"
proof -
  have "sort mp \<noteq> []" using assms by (metis length_sort length_0_conv)
  then have "hd (sort mp) = Min (set (sort mp))"
    by (intro hd_sorted_Min) simp_all
  then show ?thesis by (simp add: first_marker_def)
qed

lemma first_marker_least:
  assumes "mp \<noteq> []" and "first_marker mp = (pos, marker)"
  shows "(pos, marker) \<in> set mp"
    and "\<And>q m. (q, m) \<in> set mp \<Longrightarrow> pos < q \<or> (pos = q \<and> marker \<le> m)"
proof -
  have eq: "(pos, marker) = Min (set mp)"
    using assms first_marker_Min by metis
  show "(pos, marker) \<in> set mp"
    unfolding eq using assms(1) by (intro Min_in) simp_all
  fix q m assume "(q, m) \<in> set mp"
  then have "Min (set mp) \<le> (q, m)" by (intro Min_le) simp_all
  then have "(pos, marker) \<le> (q, m)" by (simp add: eq)
  then show "pos < q \<or> (pos = q \<and> marker \<le> m)"
    by (auto simp: less_eq_prod_def)
qed

text \<open>Ties under the default list.\<close>

definition tie_ordered :: "byte list \<Rightarrow> byte list \<Rightarrow> bool" where
  "tie_ordered m1 m2 = (m1 \<le> m2 \<or> (m1 \<noteq> [] \<and> m2 \<noteq> [] \<and> hd m1 \<noteq> hd m2))"

lemma match_same_hd:
  assumes "take (length m1) (drop p data) = m1" "take (length m2) (drop p data) = m2"
    and "m1 \<noteq> []" "m2 \<noteq> []"
  shows "hd m1 = hd m2"
proof -
  have "hd m1 = hd (drop p data)" using assms(1,3) by (metis hd_take length_greater_0_conv)
  moreover have "hd m2 = hd (drop p data)" using assms(2,4) by (metis hd_take length_greater_0_conv)
  ultimately show ?thesis by simp
qed

lemma scan_markers_tie_sorted:
  assumes "sorted_wrt tie_ordered ms"
  shows "sorted_wrt (\<lambda>a b. fst a = fst b \<longrightarrow> snd a \<le> snd b) (scan_markers data ms)"
  using assms
proof (induction ms)
  case Nil then show ?case by simp
next
  case (Cons m ms)
  show ?case
  proof (cases "find_bytes data m")
    case None with Cons show ?thesis by simp
  next
    case (Some p)
    have "\<forall>b \<in> set (scan_markers data ms). p = fst b \<longrightarrow> m \<le> snd b"
    proof
      fix b assume b: "b \<in> set (scan_markers data ms)"
      obtain q m2 where [simp]: "b = (q, m2)" by (cases b)
      from b have m2: "m2 \<in> set ms" "find_bytes data m2 = Some q"
        by (auto simp: set_scan_markers)
      with Cons.prems have t: "tie_ordered m m2" by auto
      show "p = fst b \<longrightarrow> m \<le> snd b"
      proof
        assume "p = fst b"
        then have "q = p" by simp
        with m2 Some have "take (length m) (drop p data) = m" "take (length m2) (drop p data) = m2"
          by (auto dest: find_bytes_Some_match)
        with t show "m \<le> snd b"
          using match_same_hd[of m p data m2] by (auto simp: tie_ordered_def)
      qed
    qed
    with Cons Some show ?thesis by simp
  qed
qed

lemma default_markers_tie_sorted: "sorted_wrt tie_ordered default_markers"
  by (simp add: default_markers_def tie_ordered_def)

lemma tie_sorted_hd:
  fixes hits :: "(nat \<times> byte list) list"
  assumes "sorted_wrt (\<lambda>a b. fst a = fst b \<longrightarrow> snd a \<le> snd b) hits"
    and "hits \<noteq> []" and "first_marker hits = (pos, marker)"
  shows "hd (filter (\<lambda>h. fst h = pos) hits) = (pos, marker)"
proof -
  let ?F = "filter (\<lambda>h. fst h = pos) hits"
  have inF: "(pos, marker) \<in> set ?F"
    using first_marker_least(1)[OF assms(2,3)] by simp
  then have ne: "?F \<noteq> []" by (metis empty_iff empty_set)
  have "sorted_wrt (\<lambda>a b. fst a = fst b \<longrightarrow> snd a \<le> snd b) ?F"
    using assms(1) by (rule sorted_wrt_filter)
  then have "sorted_wrt (\<lambda>a b. a \<le> b) ?F"
    by (rule sorted_wrt_mono_rel[rotated]) (auto simp: less_eq_prod_def)
  then have "hd ?F = Min (set ?F)" using ne by (intro hd_sorted_Min) simp_all
  moreover have "Min (set ?F) = (pos, marker)"
  proof (rule Min_eqI)
    show "finite (set ?F)" by simp
    show "(pos, marker) \<in> set ?F" by (rule inF)
    fix y assume "y \<in> set ?F"
    then have "y \<in> set hits" by simp
    then show "(pos, marker) \<le> y"
      using first_marker_least(2)[OF assms(2,3), of "fst y" "snd y"]
      by (auto simp: less_eq_prod_def)
  qed
  ultimately show ?thesis by simp
qed


lemma take2_drop:
  assumes "i + 1 < length xs"
  shows "take 2 (drop i xs) = [xs ! i, xs ! (i + 1)]"
proof -
  have "drop i xs = xs ! i # drop (Suc i) xs"
    using assms by (simp add: Cons_nth_drop_Suc)
  moreover have "drop (Suc i) xs = xs ! (Suc i) # drop (Suc (Suc i)) xs"
    using assms by (simp add: Cons_nth_drop_Suc)
  ultimately show ?thesis by (simp add: numeral_2_eq_2)
qed

lemma byte_scan_empty:
  assumes "scan_markers data default_markers = []"
  shows "byte_scan data = []"
proof -
  have n1: "find_bytes data [0x80, 0x01] = None" and n2: "find_bytes data [0x82, 0x21] = None"
    using assms by (auto simp: default_markers_def split: option.splits)
  have "\<not> ((data ! i = 0x80 \<and> data ! (i + 1) = 0x01) \<or> (data ! i = 0x82 \<and> data ! (i + 1) = 0x21))"
    if "i < length data - 2" for i
  proof -
    from that have "take 2 (drop i data) = [data ! i, data ! (i + 1)]"
      by (intro take2_drop) simp
    moreover have "take 2 (drop i data) \<noteq> [0x80, 0x01]"
      using find_bytes_None[OF n1, of i] by (simp add: numeral_2_eq_2)
    moreover have "take 2 (drop i data) \<noteq> [0x82, 0x21]"
      using find_bytes_None[OF n2, of i] by (simp add: numeral_2_eq_2)
    ultimately show ?thesis by auto
  qed
  then show ?thesis
    by (simp add: byte_scan_def filter_empty_conv)
qed

text \<open>
  C9.  With the default marker list the byte-by-byte scan adds nothing: \<open>parse_data\<close>
  returns exactly what it returns without that scan, and whenever the structural attempt
  is rejected and no default marker occurs, the scan finds no pair either and
  \<open>parse_data\<close> raises the error "No Thrift/Frugal marker found in the message".
\<close>

theorem byte_scan_redundant:
  "parse_data data None = parse_data_no_fallback data None
   \<and> (frugal_split data = None \<and> scan_markers data default_markers = []
        \<longrightarrow> byte_scan data = [] \<and> parse_data data None = Inl (ValueError no_marker_msg))"
  using byte_scan_empty[of data]
  by (auto simp: parse_data_def parse_data_no_fallback_def Let_def split: option.splits)

theorem byte_scan_redundant_witness:
  "parse_data [1, 2, 3, 0x80] None = parse_data_no_fallback [1, 2, 3, 0x80] None
   \<and> byte_scan [1, 2, 3, 0x80] = []
   \<and> parse_data [1, 2, 3, 0x80] None = Inl (ValueError no_marker_msg)"
proof -
  have h: "frugal_split [1, 2, 3, 0x80] = None
           \<and> scan_markers [1, 2, 3, 0x80] default_markers = []"
    by (simp add: frugal_split_def default_markers_def)
  from byte_scan_redundant[of "[1, 2, 3, 0x80]"] h show ?thesis by blast
qed

lemma first_marker_offset:
  assumes "mp \<noteq> []"
  shows "fst (first_marker mp) = Min (fst ` set mp)"
proof -
  obtain pos marker where fm: "first_marker mp = (pos, marker)" by (cases "first_marker mp")
  have "Min (fst ` set mp) = pos"
  proof (rule Min_eqI)
    show "finite (fst ` set mp)" by simp
    show "pos \<in> fst ` set mp"
      using first_marker_least(1)[OF assms fm] by force
    fix y assume "y \<in> fst ` set mp"
    then obtain m where "(y, m) \<in> set mp" by auto
    from first_marker_least(2)[OF assms fm this] show "pos \<le> y" by auto
  qed
  with fm show ?thesis by simp
qed

lemma scan_markers_first_at:
  assumes "filter (\<lambda>h. fst h = p) (scan_markers data ms) \<noteq> []"
  shows "\<exists>pre post.
           ms = pre @ snd (hd (filter (\<lambda>h. fst h = p) (scan_markers data ms))) # post
           \<and> (\<forall>m \<in> set pre. find_bytes data m \<noteq> Some p)
           \<and> find_bytes data (snd (hd (filter (\<lambda>h. fst h = p) (scan_markers data ms)))) = Some p"
  using assms
proof (induction ms)
  case Nil then show ?case by simp
next
  case (Cons m ms)
  show ?case
  proof (cases "find_bytes data m = Some p")
    case True
    then have "hd (filter (\<lambda>h. fst h = p) (scan_markers data (m # ms))) = (p, m)" by simp
    with True show ?thesis by (intro exI[of _ "[]"] exI[of _ ms]) simp
  next
    case False
    then have eq: "filter (\<lambda>h. fst h = p) (scan_markers data (m # ms))
                 = filter (\<lambda>h. fst h = p) (scan_markers data ms)"
      by (cases "find_bytes data m") auto
    with Cons.prems have "filter (\<lambda>h. fst h = p) (scan_markers data ms) \<noteq> []" by simp
    from Cons.IH[OF this] obtain pre post where
      IH: "ms = pre @ snd (hd (filter (\<lambda>h. fst h = p) (scan_markers data ms))) # post"
          "\<forall>m \<in> set pre. find_bytes data m \<noteq> Some p"
          "find_bytes data (snd (hd (filter (\<lambda>h. fst h = p) (scan_markers data ms)))) = Some p"
      by blast
    show ?thesis
      unfolding eq
      using IH False by (intro exI[of _ "m # pre"] exI[of _ post]) auto
  qed
qed

text \<open>
  C6.  When the structural attempt is rejected and some configured marker occurs,
  \<open>parse_data\<close> splits the buffer at \<open>pos\<close>, the smallest first-occurrence offset of any
  configured marker: the header is everything before \<open>pos\<close>.  Among the markers that first
  occur at \<open>pos\<close>, the one configured earliest (\<open>marker\<close>, with no marker before it in the
  list occurring first at \<open>pos\<close>) determines the same split, so on a tie the earlier entry
  wins.  With marker A at offset 5 and marker B, configured earlier, at offset 2, the split is
  at offset 2.
\<close>

theorem parse_data_marker_scan:
  assumes "frugal_split data = None" and "scan_markers data ms \<noteq> []"
  shows "\<exists>pos marker pre post.
           pos = Min (fst ` set (scan_markers data ms))
         \<and> (\<forall>m \<in> set ms. \<forall>q. find_bytes data m = Some q \<longrightarrow> pos \<le> q)
         \<and> ms = pre @ marker # post
         \<and> (\<forall>m \<in> set pre. find_bytes data m \<noteq> Some pos)
         \<and> find_bytes data marker = Some pos
         \<and> parse_data data (Some ms) = Inr (take pos data, drop pos data)
         \<and> (ms = default_markers \<longrightarrow> parse_data data None = Inr (take pos data, drop pos data))"
proof -
  let ?hits = "scan_markers data ms"
  define pos where "pos = Min (fst ` set ?hits)"
  obtain p marker0 where fm: "first_marker ?hits = (p, marker0)" by (cases "first_marker ?hits")
  have p: "p = pos" using first_marker_offset[OF assms(2)] fm by (simp add: pos_def)
  have least: "\<forall>m \<in> set ms. \<forall>q. find_bytes data m = Some q \<longrightarrow> pos \<le> q"
  proof (intro ballI allI impI)
    fix m q assume "m \<in> set ms" "find_bytes data m = Some q"
    then have "(q, m) \<in> set ?hits" by (simp add: set_scan_markers)
    from first_marker_least(2)[OF assms(2) fm this] show "pos \<le> q" using p by auto
  qed
  have "(p, marker0) \<in> set ?hits" by (rule first_marker_least(1)[OF assms(2) fm])
  then have "(pos, marker0) \<in> set (filter (\<lambda>h. fst h = pos) ?hits)" using p by simp
  then have ne: "filter (\<lambda>h. fst h = pos) ?hits \<noteq> []" by (metis empty_iff empty_set)
  from scan_markers_first_at[OF ne] obtain pre post where
    sp: "ms = pre @ snd (hd (filter (\<lambda>h. fst h = pos) ?hits)) # post"
        "\<forall>m \<in> set pre. find_bytes data m \<noteq> Some pos"
        "find_bytes data (snd (hd (filter (\<lambda>h. fst h = pos) ?hits))) = Some pos"
    by blast
  have split: "parse_data data (Some ms) = Inr (take pos data, drop pos data)"
    using assms fm p by (simp add: parse_data_def Let_def bslice_0)
  have dflt: "ms = default_markers \<longrightarrow> parse_data data None = Inr (take pos data, drop pos data)"
    using assms fm p by (auto simp: parse_data_def Let_def bslice_0)
  from least sp split dflt show ?thesis
    unfolding pos_def[symmetric] by blast
qed

theorem parse_data_marker_scan_witness:
  "parse_data [9, 9, 0x82, 0x21, 9, 0x80, 1] (Some [[0x82, 0x21], [0x80, 1]])
     = Inr ([9, 9], [0x82, 0x21, 9, 0x80, 1])
   \<and> scan_markers [9, 9, 0x82, 0x21, 9, 0x80, 1] [[0x82, 0x21], [0x80, 1]]
     = [(2, [0x82, 0x21]), (5, [0x80, 1])]"
proof -
  let ?d = "[9, 9, 0x82, 0x21, 9, 0x80, 1] :: byte list"
  let ?ms = "[[0x82, 0x21], [0x80, 1]] :: byte list list"
  have s: "scan_markers ?d ?ms = [(2, [0x82, 0x21]), (5, [0x80, 1])]" by simp
  have h: "frugal_split ?d = None" "scan_markers ?d ?ms \<noteq> []"
    by (simp_all add: frugal_split_def)
  have m: "Min (fst ` set (scan_markers ?d ?ms)) = 2" unfolding s by simp
  from parse_data_marker_scan[OF h] m s show ?thesis by auto
qed

section \<open>Documents\<close>

text \<open>
  The JSON documents that the converter reads and writes, as Python holds them: a \<open>dict\<close>
  is an association list in insertion order with distinct keys, a \<open>float\<close> is its IEEE 754
  bit pattern.
\<close>

datatype json =
    JNull
  | JBool bool
  | JInt int
  | JFloat "64 word"
  | JStr pystr
  | JList "json list"
  | JObj "(pystr \<times> json) list"

text \<open>\<open>d[k] = v\<close>: a key already present keeps its place and takes the new value.\<close>

fun dict_set :: "('k \<times> 'v) list \<Rightarrow> 'k \<Rightarrow> 'v \<Rightarrow> ('k \<times> 'v) list" where
  "dict_set [] k v = [(k, v)]"
| "dict_set ((k', v') # d) k v =
     (if k' = k then (k, v) # d else (k', v') # dict_set d k v)"

section \<open>UTF-8\<close>

text \<open>
  \<open>bytes.decode('utf-8')\<close> and \<open>str.encode('utf-8')\<close> with the default strict error
  handling: overlong forms, surrogates and values above U+10FFFF are refused.
\<close>

definition is_cont :: "nat \<Rightarrow> bool" where
  "is_cont b = (0x80 \<le> b \<and> b \<le> 0xBF)"

definition utf8_cons :: "nat \<Rightarrow> exn + pystr \<Rightarrow> exn + pystr" where
  "utf8_cons c r = (case r of Inl e \<Rightarrow> Inl e | Inr cs \<Rightarrow> Inr (c # cs))"

fun utf8_decode_nat :: "nat list \<Rightarrow> exn + pystr" where
  "utf8_decode_nat [] = Inr []"
| "utf8_decode_nat (b0 # rest) =
     (if b0 < 0x80 then utf8_cons b0 (utf8_decode_nat rest)
      else if 0xC2 \<le> b0 \<and> b0 \<le> 0xDF then
        (case rest of
           b1 # rest1 \<Rightarrow>
             if is_cont b1
             then utf8_cons ((b0 - 0xC0) * 64 + (b1 - 0x80)) (utf8_decode_nat rest1)
             else Inl UnicodeDecodeError
         | _ \<Rightarrow> Inl UnicodeDecodeError)
      else if 0xE0 \<le> b0 \<and> b0 \<le> 0xEF then
        (case rest of
           b1 # b2 # rest2 \<Rightarrow>
             let c = (b0 - 0xE0) * 4096 + (b1 - 0x80) * 64 + (b2 - 0x80) in
             if is_cont b1 \<and> is_cont b2 \<and> 0x800 \<le> c \<and> \<not> (0xD800 \<le> c \<and> c \<le> 0xDFFF)
             then utf8_cons c (utf8_decode_nat rest2)
             else Inl UnicodeDecodeError
         | _ \<Rightarrow> Inl UnicodeDecodeError)
      else if 0xF0 \<le> b0 \<and> b0 \<le> 0xF4 then
        (case rest of
           b1 # b2 # b3 # rest3 \<Rightarrow>
             let c = (b0 - 0xF0) * 262144 + (b1 - 0x80) * 4096 + (b2 - 0x80) * 64 + (b3 - 0x80) in
             if is_cont b1 \<and> is_cont b2 \<and> is_cont b3 \<and> 0x10000 \<le> c \<and> c \<le> 0x10FFFF
             then utf8_cons c (utf8_decode_nat rest3)
             else Inl UnicodeDecodeError
         | _ \<Rightarrow> Inl UnicodeDecodeError)
      else Inl UnicodeDecodeError)"

definition utf8_decode :: "byte list \<Rightarrow> exn + pystr" where
  "utf8_decode bs = utf8_decode_nat (map unat bs)"

definition utf8_char :: "nat \<Rightarrow> exn + byte list" where
  "utf8_char c =
     (if c < 0x80 then Inr [of_nat c]
      else if c < 0x800 then Inr [of_nat (0xC0 + c div 64), of_nat (0x80 + c mod 64)]
      else if c < 0x10000 then
        (if 0xD800 \<le> c \<and> c \<le> 0xDFFF then Inl UnicodeEncodeError
         else Inr [of_nat (0xE0 + c div 4096), of_nat (0x80 + (c div 64) mod 64),
                   of_nat (0x80 + c mod 64)])
      else if c < 0x110000 then
        Inr [of_nat (0xF0 + c div 262144), of_nat (0x80 + (c div 4096) mod 64),
             of_nat (0x80 + (c div 64) mod 64), of_nat (0x80 + c mod 64)]
      else Inl UnicodeEncodeError)"

fun utf8_encode :: "pystr \<Rightarrow> exn + byte list" where
  "utf8_encode [] = Inr []"
| "utf8_encode (c # cs) =
     (case utf8_char c of
        Inl e \<Rightarrow> Inl e
      | Inr bs \<Rightarrow> (case utf8_encode cs of Inl e \<Rightarrow> Inl e | Inr rest \<Rightarrow> Inr (bs @ rest)))"

text \<open>\<open>struct.pack('>I', n)\<close>: four bytes, most significant first; the value must fit.\<close>

definition be32 :: "nat \<Rightarrow> byte list" where
  "be32 n = [of_nat (n div 16777216), of_nat (n div 65536), of_nat (n div 256), of_nat n]"

definition pack_I :: "nat \<Rightarrow> exn + byte list" where
  "pack_I n = (if n < 2 ^ 32 then Inr (be32 n) else Inl StructError)"

text \<open>Strings of code points below 128, for which \<open>len\<close> is also the UTF-8 length.\<close>

definition ascii :: "pystr \<Rightarrow> bool" where
  "ascii s = (\<forall>c \<in> set s. c < 128)"

section \<open>The header block\<close>


text \<open>One pass of the body of the \<open>while\<close> loop of \<open>decode_headers\<close>.\<close>

definition header_entry ::
  "byte list \<Rightarrow> nat \<Rightarrow> (pystr \<times> json) list \<Rightarrow> exn + (nat \<times> (pystr \<times> json) list)" where
  "header_entry mb offset headers =
     (case unpack_I (bslice mb offset (offset + 4)) of
        Inl e \<Rightarrow> Inl e
      | Inr key_length \<Rightarrow>
          let offset = offset + 4 in
          (case utf8_decode (bslice mb offset (offset + key_length)) of
             Inl e \<Rightarrow> Inl e
           | Inr key \<Rightarrow>
               let offset = offset + key_length in
               (case unpack_I (bslice mb offset (offset + 4)) of
                  Inl e \<Rightarrow> Inl e
                | Inr value_length \<Rightarrow>
                    let offset = offset + 4 in
                    (case utf8_decode (bslice mb offset (offset + value_length)) of
                       Inl e \<Rightarrow> Inl e
                     | Inr val \<Rightarrow>
                         let offset = offset + value_length in
                         Inr (offset, dict_set headers key (JStr val))))))"

lemma header_entry_advances:
  "header_entry mb offset headers = Inr (offset', headers') \<Longrightarrow> offset < offset'"
  by (auto simp: header_entry_def Let_def split: sum.splits)

function header_loop ::
  "byte list \<Rightarrow> nat \<Rightarrow> nat \<Rightarrow> (pystr \<times> json) list \<Rightarrow> exn + (pystr \<times> json) list" where
  "header_loop mb data_length offset headers =
     (if offset < data_length then
        (case header_entry mb offset headers of
           Inl e \<Rightarrow> Inl e
         | Inr (offset', headers') \<Rightarrow> header_loop mb data_length offset' headers')
      else Inr headers)"
  by pat_completeness auto
termination
  by (relation "measure (\<lambda>(mb, data_length, offset, headers). data_length - offset)")
     (auto dest: header_entry_advances)

declare header_loop.simps [simp del]

definition decode_headers :: "byte list \<Rightarrow> exn + json" where
  "decode_headers header =
     (let mb = header in
      case unpack_I (bslice mb 0 4) of
        Inl e \<Rightarrow> Inl e
      | Inr message_length \<Rightarrow>
      (case unpack_B (bslice mb 4 5) of
        Inl e \<Rightarrow> Inl e
      | Inr version \<Rightarrow>
      (case unpack_I (bslice mb 5 9) of
        Inl e \<Rightarrow> Inl e
      | Inr header_length \<Rightarrow>
          let metadata = [(str ''message_length'', JInt (int message_length)),
                          (str ''version'', JInt (int version)),
                          (str ''header_length'', JInt (int header_length))];
              offset = 9;
              data_length = header_length
          in (case header_loop mb data_length offset [] of
                Inl e \<Rightarrow> Inl e
              | Inr headers \<Rightarrow>
                  Inr (JObj [(str ''metadata'', JObj metadata),
                             (str ''headers'', JObj headers)])))))"

text \<open>The header loop of \<open>encode_data\<close>.\<close>

fun encode_headers :: "(pystr \<times> pystr) list \<Rightarrow> exn + byte list" where
  "encode_headers [] = Inr []"
| "encode_headers ((i, v) # rest) =
     (case pack_I (length i) of Inl e \<Rightarrow> Inl e | Inr kl \<Rightarrow>
      (case utf8_encode i of Inl e \<Rightarrow> Inl e | Inr kb \<Rightarrow>
      (case pack_I (length v) of Inl e \<Rightarrow> Inl e | Inr vl \<Rightarrow>
      (case utf8_encode v of Inl e \<Rightarrow> Inl e | Inr vb \<Rightarrow>
      (case encode_headers rest of Inl e \<Rightarrow> Inl e | Inr more \<Rightarrow>
         Inr (kl @ kb @ vl @ vb @ more))))))"



inductive header_reaches ::
  "byte list \<Rightarrow> nat \<Rightarrow> nat \<times> (pystr \<times> json) list \<Rightarrow> nat \<times> (pystr \<times> json) list \<Rightarrow> bool"
  for mb :: "byte list" and data_length :: nat where
  start: "header_reaches mb data_length s s"
| pass: "offset < data_length \<Longrightarrow> header_entry mb offset headers = Inr s' \<Longrightarrow>
         header_reaches mb data_length s' s'' \<Longrightarrow>
         header_reaches mb data_length (offset, headers) s''"


section \<open>Properties of the header block\<close>


lemma utf8_cons_Inl: "utf8_cons c r = Inl e \<Longrightarrow> r = Inl e"
  by (auto simp: utf8_cons_def split: sum.splits)

lemma utf8_cons_error:
  "(r = Inl e \<Longrightarrow> e = UnicodeDecodeError) \<Longrightarrow> utf8_cons c r = Inl e \<Longrightarrow> e = UnicodeDecodeError"
  by (auto dest: utf8_cons_Inl)

lemma utf8_decode_nat_error:
  "utf8_decode_nat bs = Inl e \<Longrightarrow> e = UnicodeDecodeError"
proof (induction bs arbitrary: e rule: utf8_decode_nat.induct)
  case 1 then show ?case by simp
next
  case (2 b0 rest)
  show ?case
  proof (cases "b0 < 0x80")
    case True
    with "2.prems" "2.IH"(1) show ?thesis by (auto dest!: utf8_cons_Inl)
  next
    case c1: False
    show ?thesis
    proof (cases "0xC2 \<le> b0 \<and> b0 \<le> 0xDF")
      case True
      with c1 "2.prems" "2.IH"(2) show ?thesis
        by (auto split: list.splits if_splits dest!: utf8_cons_Inl)
    next
      case c2: False
      show ?thesis
      proof (cases "0xE0 \<le> b0 \<and> b0 \<le> 0xEF")
        case True
        with c1 c2 "2.prems" "2.IH"(3) show ?thesis
          by (auto simp: Let_def split: list.splits if_splits dest!: utf8_cons_Inl)
      next
        case c3: False
        show ?thesis
        proof (cases "0xF0 \<le> b0 \<and> b0 \<le> 0xF4")
          case True
          with c1 c2 c3 "2.prems" "2.IH"(4) show ?thesis
            by (auto simp: Let_def split: list.splits if_splits dest!: utf8_cons_Inl)
        next
          case False
          with c1 c2 c3 "2.prems" have "Inl UnicodeDecodeError = (Inl e :: exn + pystr)"
            by (simp only: utf8_decode_nat.simps if_False)
          then show ?thesis by simp
        qed
      qed
    qed
  qed
qed
lemma header_reaches_loop:
  "header_reaches mb dl s s' \<Longrightarrow>
     header_loop mb dl (fst s) (snd s) = header_loop mb dl (fst s') (snd s')"
proof (induction rule: header_reaches.induct)
  case (start s) show ?case by simp
next
  case (pass offset headers s' s'')
  then show ?case
    by (cases s') (simp add: header_loop.simps[of mb dl offset headers])
qed

lemma unpack_I_short: "length bs < 4 \<Longrightarrow> unpack_I bs = Inl StructError"
  by (simp add: unpack_I_def)

lemma header_entry_length_outside:
  assumes "length mb < offset + 4"
  shows "header_entry mb offset headers = Inl StructError"
proof -
  have "length (bslice mb offset (offset + 4)) < 4"
    using assms by (simp add: bslice_def)
  then show ?thesis by (simp add: header_entry_def unpack_I_short)
qed

lemma utf8_decode_error: "utf8_decode bs = Inl e \<Longrightarrow> e = UnicodeDecodeError"
  by (simp add: utf8_decode_def utf8_decode_nat_error)

lemma header_entry_key_overrun:
  assumes "unpack_I (bslice mb offset (offset + 4)) = Inr key_length"
    and "length mb < offset + 4 + key_length"
  shows "header_entry mb offset headers = Inl StructError
       \<or> header_entry mb offset headers = Inl UnicodeDecodeError"
proof -
  have "length (bslice mb (offset + 4 + key_length) (offset + 4 + key_length + 4)) < 4"
    using assms(2) by (simp add: bslice_def)
  then have u: "unpack_I (bslice mb (offset + 4 + key_length) (offset + 4 + key_length + 4))
                  = Inl StructError"
    by (rule unpack_I_short)
  show ?thesis
  proof (cases "utf8_decode (bslice mb (offset + 4) (offset + 4 + key_length))")
    case (Inl e)
    then have "e = UnicodeDecodeError" by (rule utf8_decode_error)
    with Inl assms(1) show ?thesis by (simp add: header_entry_def Let_def)
  next
    case (Inr key)
    with assms(1) u show ?thesis by (simp add: header_entry_def Let_def)
  qed
qed

lemma decode_headers_loop_error:
  assumes "unpack_I (bslice header 5 9) = Inr data_length"
    and "header_loop header data_length 9 [] = Inl e"
  shows "decode_headers header = Inl e"
proof -
  from assms(1) have "length (bslice header 5 9) = 4"
    by (auto simp: unpack_I_def split: if_splits)
  then have len: "9 \<le> length header" by (simp add: bslice_def)
  then have "length (bslice header 0 4) = 4" "length (bslice header 4 5) = 1"
    by (simp_all add: bslice_def)
  then show ?thesis using assms
    by (simp add: decode_headers_def Let_def unpack_I_def unpack_B_def)
qed

lemma decode_headers_loop_ok:
  assumes "unpack_I (bslice header 5 9) = Inr data_length"
    and "header_loop header data_length 9 [] = Inr hs"
  shows "\<exists>metadata. decode_headers header
           = Inr (JObj [(str ''metadata'', metadata), (str ''headers'', JObj hs)])"
proof -
  from assms(1) have "length (bslice header 5 9) = 4"
    by (auto simp: unpack_I_def split: if_splits)
  then have len: "9 \<le> length header" by (simp add: bslice_def)
  then have "length (bslice header 0 4) = 4" "length (bslice header 4 5) = 1"
    by (simp_all add: bslice_def)
  then show ?thesis using assms
    by (simp add: decode_headers_def Let_def unpack_I_def unpack_B_def)
qed

lemma header_entry_value:
  assumes "unpack_I (bslice mb offset (offset + 4)) = Inr key_length"
    and "utf8_decode (bslice mb (offset + 4) (offset + 4 + key_length)) = Inr key"
    and "unpack_I (bslice mb (offset + 4 + key_length) (offset + 4 + key_length + 4))
           = Inr value_length"
  shows "header_entry mb offset headers =
           (case utf8_decode (bslice mb (offset + 4 + key_length + 4)
                                (offset + 4 + key_length + 4 + value_length)) of
              Inl e \<Rightarrow> Inl e
            | Inr val \<Rightarrow> Inr (offset + 4 + key_length + 4 + value_length,
                             dict_set headers key (JStr val)))"
  unfolding header_entry_def Let_def by (simp only: assms sum.case)

lemma header_loop_step:
  "offset < dl \<Longrightarrow>
     header_loop mb dl offset hs =
       (case header_entry mb offset hs of
          Inl e \<Rightarrow> Inl e
        | Inr (offset', hs') \<Rightarrow> header_loop mb dl offset' hs')"
  by (subst header_loop.simps) simp

lemma header_loop_stop: "\<not> offset < dl \<Longrightarrow> header_loop mb dl offset hs = Inr hs"
  by (subst header_loop.simps) simp

text \<open>
  C8 (amended).  At any pass of the header loop that \<open>decode_headers\<close> reaches with the
  offset still below the header length: if the four bytes of the key length are not all inside
  the buffer, decoding raises \<open>struct.error\<close>; if the key length read there makes the key
  run past the end of the buffer, decoding raises \<open>struct.error\<close> (on the value length that
  follows) or \<open>UnicodeDecodeError\<close> (on the clipped key).  If instead the value length makes
  the value run past the end of the buffer, the value is clipped to the bytes that are there:
  decoding raises \<open>UnicodeDecodeError\<close> when the clipped bytes are not valid UTF-8, raises
  \<open>struct.error\<close> when the offset after the value is still below the header length, and
  otherwise returns the mapping with the clipped value.
\<close>

theorem decode_headers_overrun:
  assumes "unpack_I (bslice header 5 9) = Inr data_length"
    and "header_reaches header data_length (9, []) (offset, headers)"
    and "offset < data_length"
  shows "(length header < offset + 4 \<longrightarrow> decode_headers header = Inl StructError)
       \<and> (\<forall>key_length.
            unpack_I (bslice header offset (offset + 4)) = Inr key_length
            \<and> length header < offset + 4 + key_length
            \<longrightarrow> decode_headers header = Inl StructError
                \<or> decode_headers header = Inl UnicodeDecodeError)
       \<and> (\<forall>key_length key value_length.
            unpack_I (bslice header offset (offset + 4)) = Inr key_length
            \<and> utf8_decode (bslice header (offset + 4) (offset + 4 + key_length)) = Inr key
            \<and> unpack_I (bslice header (offset + 4 + key_length) (offset + 4 + key_length + 4))
                = Inr value_length
            \<and> length header < offset + 4 + key_length + 4 + value_length
            \<longrightarrow> (case utf8_decode (bslice header (offset + 4 + key_length + 4)
                                     (offset + 4 + key_length + 4 + value_length)) of
                   Inl e \<Rightarrow> decode_headers header = Inl UnicodeDecodeError
                 | Inr val \<Rightarrow>
                     if offset + 4 + key_length + 4 + value_length < data_length
                     then decode_headers header = Inl StructError
                     else \<exists>metadata. decode_headers header
                            = Inr (JObj [(str ''metadata'', metadata),
                                         (str ''headers'',
                                          JObj (dict_set headers key (JStr val)))])))"
proof -
  have loop: "header_loop header data_length 9 [] = header_loop header data_length offset headers"
    using header_reaches_loop[OF assms(2)] by simp
  have unfold: "header_loop header data_length offset headers =
      (case header_entry header offset headers of
         Inl e \<Rightarrow> Inl e
       | Inr (offset', headers') \<Rightarrow> header_loop header data_length offset' headers')"
    using assms(3) by (simp add: header_loop.simps[of header data_length offset headers])
  have step: "header_entry header offset headers = Inl e \<Longrightarrow> decode_headers header = Inl e" for e
    using loop unfold by (intro decode_headers_loop_error[OF assms(1)]) simp
  have a: "length header < offset + 4 \<longrightarrow> decode_headers header = Inl StructError"
    using step header_entry_length_outside[of header offset headers] by blast
  have b: "\<forall>key_length.
            unpack_I (bslice header offset (offset + 4)) = Inr key_length
            \<and> length header < offset + 4 + key_length
            \<longrightarrow> decode_headers header = Inl StructError
                \<or> decode_headers header = Inl UnicodeDecodeError"
    using step header_entry_key_overrun[of header offset _ headers] by blast
  have c: "(case utf8_decode (bslice header (offset + 4 + key_length + 4)
                                     (offset + 4 + key_length + 4 + value_length)) of
                   Inl e \<Rightarrow> decode_headers header = Inl UnicodeDecodeError
                 | Inr val \<Rightarrow>
                     if offset + 4 + key_length + 4 + value_length < data_length
                     then decode_headers header = Inl StructError
                     else \<exists>metadata. decode_headers header
                            = Inr (JObj [(str ''metadata'', metadata),
                                         (str ''headers'',
                                          JObj (dict_set headers key (JStr val)))]))"
    if h: "unpack_I (bslice header offset (offset + 4)) = Inr key_length"
          "utf8_decode (bslice header (offset + 4) (offset + 4 + key_length)) = Inr key"
          "unpack_I (bslice header (offset + 4 + key_length) (offset + 4 + key_length + 4))
             = Inr value_length"
          "length header < offset + 4 + key_length + 4 + value_length"
    for key_length key value_length
  proof (cases "utf8_decode (bslice header (offset + 4 + key_length + 4)
                               (offset + 4 + key_length + 4 + value_length))")
    case (Inl e)
    then have u: "e = UnicodeDecodeError" by (rule utf8_decode_error)
    have "header_entry header offset headers = Inl e"
      using header_entry_value[OF h(1-3), of headers] by (simp only: Inl sum.case)
    then have "decode_headers header = Inl UnicodeDecodeError" using step u by simp
    then show ?thesis by (simp only: Inl sum.case)
  next
    case (Inr val)
    define o' where "o' = offset + 4 + key_length + 4 + value_length"
    define h' where "h' = dict_set headers key (JStr val)"
    have past: "length header < o' + 4" using h(4) by (simp add: o'_def)
    have e: "header_entry header offset headers = Inr (o', h')"
      using header_entry_value[OF h(1-3), of headers]
      unfolding o'_def h'_def by (simp only: Inr sum.case)
    have l: "header_loop header data_length 9 [] = header_loop header data_length o' h'"
      using loop unfold e by simp
    have r: "if o' < data_length then decode_headers header = Inl StructError
             else \<exists>metadata. decode_headers header
                    = Inr (JObj [(str ''metadata'', metadata), (str ''headers'', JObj h')])"
    proof (cases "o' < data_length")
      case True
      have "header_entry header o' h' = Inl StructError"
        using past by (rule header_entry_length_outside)
      with True have "header_loop header data_length o' h' = Inl StructError"
        by (simp add: header_loop_step)
      with l have "decode_headers header = Inl StructError"
        by (intro decode_headers_loop_error[OF assms(1)]) simp
      with True show ?thesis by simp
    next
      case False
      then have "header_loop header data_length o' h' = Inr h'"
        by (rule header_loop_stop)
      with l have "\<exists>metadata. decode_headers header
                     = Inr (JObj [(str ''metadata'', metadata), (str ''headers'', JObj h')])"
        by (intro decode_headers_loop_ok[OF assms(1)]) simp
      with False show ?thesis by simp
    qed
    show ?thesis
      using r unfolding o'_def h'_def by (simp only: Inr sum.case)
  qed
  from a b c show ?thesis by blast
qed


theorem decode_headers_overrun_witness:
  "decode_headers [0, 0, 0, 50, 0, 0, 0, 0, 20, 0, 0, 0, 9, 0x61] = Inl StructError
   \<and> decode_headers [0, 0, 0, 50, 0, 0, 0, 0, 10, 0, 0, 0, 1, 0x61, 0, 0, 0, 5, 0xC3]
       = Inl UnicodeDecodeError"
proof
  let ?h = "[0, 0, 0, 50, 0, 0, 0, 0, 20, 0, 0, 0, 9, 0x61] :: byte list"
  have a: "unpack_I (bslice ?h 5 9) = Inr 20" by code_simp
  have b: "header_reaches ?h 20 (9, []) (9, [])" by (rule header_reaches.start)
  have c: "unpack_I (bslice ?h 9 (9 + 4)) = Inr 9 \<and> length ?h < 9 + 4 + 9" by code_simp
  have d: "decode_headers ?h \<noteq> Inl UnicodeDecodeError" by code_simp
  from decode_headers_overrun[OF a b] c d show "decode_headers ?h = Inl StructError"
    by fastforce
next
  let ?h = "[0, 0, 0, 50, 0, 0, 0, 0, 10, 0, 0, 0, 1, 0x61, 0, 0, 0, 5, 0xC3] :: byte list"
  have a: "unpack_I (bslice ?h 5 9) = Inr 10" by code_simp
  have b: "header_reaches ?h 10 (9, []) (9, [])" by (rule header_reaches.start)
  have c: "(9::nat) < 10" by simp
  have f: "unpack_I (bslice ?h 9 (9 + 4)) = Inr 1
        \<and> utf8_decode (bslice ?h (9 + 4) (9 + 4 + 1)) = Inr [0x61]
        \<and> unpack_I (bslice ?h (9 + 4 + 1) (9 + 4 + 1 + 4)) = Inr 5
        \<and> length ?h < 9 + 4 + 1 + 4 + 5"
    by code_simp
  have v: "utf8_decode (bslice ?h (9 + 4 + 1 + 4) (9 + 4 + 1 + 4 + 5)) = Inl UnicodeDecodeError"
    by code_simp
  have t: "case utf8_decode (bslice ?h (9 + 4 + 1 + 4) (9 + 4 + 1 + 4 + 5)) of
              Inl e \<Rightarrow> decode_headers ?h = Inl UnicodeDecodeError
            | Inr val \<Rightarrow>
                if 9 + 4 + 1 + 4 + 5 < (10::nat) then decode_headers ?h = Inl StructError
                else \<exists>metadata. decode_headers ?h
                       = Inr (JObj [(str ''metadata'', metadata),
                                    (str ''headers'', JObj (dict_set [] [0x61] (JStr val)))])"
    using conjunct2[OF conjunct2[OF decode_headers_overrun[OF a b c]],
            rule_format, of 1 "[0x61]" 5] f
    by blast
  then show "decode_headers ?h = Inl UnicodeDecodeError"
    by (simp only: v sum.case)
qed

text \<open>
  C8 as stated fails for a value length: here the value length 5 at offset 14 runs past the
  end of the 19-byte buffer, the slice is clipped to the one byte that is there, the loop
  ends because the offset has passed the header length, and a mapping is returned.
\<close>

theorem value_overrun_counterexample:
  "unpack_I (bslice [0, 0, 0, 50, 0, 0, 0, 0, 10, 0, 0, 0, 1, 0x61, 0, 0, 0, 5, 0x62] 14 18) = Inr 5
   \<and> length [0, 0, 0, 50, 0, 0, 0, 0, 10, 0, 0, 0, 1, 0x61, 0, 0, 0, 5, 0x62 :: byte] < 18 + 5
   \<and> decode_headers [0, 0, 0, 50, 0, 0, 0, 0, 10, 0, 0, 0, 1, 0x61, 0, 0, 0, 5, 0x62] =
       Inr (JObj [(str ''metadata'',
                   JObj [(str ''message_length'', JInt 50), (str ''version'', JInt 0),
                         (str ''header_length'', JInt 10)]),
                  (str ''headers'', JObj [(str ''a'', JStr (str ''b''))])])"
  by code_simp

lemma be_nat_be32:
  assumes "n < 2 ^ 32"
  shows "be_nat (be32 n) = n"
proof -
  define a where "a = n div 256"
  define b where "b = a div 256"
  define c where "c = b div 256"
  have d1: "n div 65536 = b" and d2: "n div 16777216 = c"
    by (simp_all add: a_def b_def c_def div_mult2_eq)
  have "c < 256" using assms by (simp add: a_def b_def c_def div_mult2_eq)
  then have c: "c mod 256 = c" by simp
  have e1: "c * 256 + b mod 256 = b" by (simp add: c_def)
  have e2: "b * 256 + a mod 256 = a" by (simp add: b_def)
  have e3: "a * 256 + n mod 256 = n" by (simp add: a_def)
  have "be_nat (be32 n) = ((c mod 256 * 256 + b mod 256) * 256 + a mod 256) * 256 + n mod 256"
    by (simp add: be_nat_def be32_def unat_of_nat d1 d2 a_def[symmetric])
  then show ?thesis by (simp only: c e1 e2 e3)
qed


lemma ascii_encode: "ascii s \<Longrightarrow> utf8_encode s = Inr (map of_nat s)"
  by (induction s) (simp_all add: ascii_def utf8_char_def)

lemma ascii_decode_nat: "ascii s \<Longrightarrow> utf8_decode_nat s = Inr s"
  by (induction s) (simp_all add: ascii_def utf8_cons_def)

lemma ascii_decode:
  assumes "ascii s"
  shows "utf8_decode (map of_nat s) = Inr s"
proof -
  have "map unat (map of_nat s :: byte list) = s"
    using assms by (induction s) (simp_all add: ascii_def unat_of_nat)
  then show ?thesis using assms by (simp add: utf8_decode_def ascii_decode_nat)
qed

lemma bslice_middle:
  "bslice (pre @ a @ post) (length pre) (length pre + length a) = a"
  by (simp add: bslice_def)

subsection \<open>Encoding the headers and reading them back\<close>


definition pair_bytes :: "pystr \<times> pystr \<Rightarrow> byte list" where
  "pair_bytes kv = be32 (length (fst kv)) @ map of_nat (fst kv)
                   @ be32 (length (snd kv)) @ map of_nat (snd kv)"

definition ascii_headers :: "(pystr \<times> pystr) list \<Rightarrow> bool" where
  "ascii_headers kvs = (\<forall>kv \<in> set kvs. ascii (fst kv) \<and> ascii (snd kv))"

lemma length_be32 [simp]: "length (be32 n) = 4"
  by (simp add: be32_def)

lemma length_pair_bytes: "length (pair_bytes kv) = 8 + length (fst kv) + length (snd kv)"
  by (simp add: pair_bytes_def)

lemma unpack_I_be32: "n < 2 ^ 32 \<Longrightarrow> unpack_I (be32 n) = Inr n"
  by (simp add: unpack_I_def be_nat_be32)

lemma encode_headers_ascii:
  assumes "ascii_headers kvs" and "encode_headers kvs = Inr hb"
  shows "hb = concat (map pair_bytes kvs)
         \<and> (\<forall>kv \<in> set kvs. length (fst kv) < 2 ^ 32 \<and> length (snd kv) < 2 ^ 32)"
  using assms
proof (induction kvs arbitrary: hb)
  case Nil then show ?case by simp
next
  case (Cons kv kvs)
  obtain k v where kv: "kv = (k, v)" by (cases kv)
  from Cons.prems(1) have a: "ascii k" "ascii v" "ascii_headers kvs"
    by (simp_all add: ascii_headers_def kv)
  from Cons.prems(2) obtain more where
    m: "encode_headers kvs = Inr more" "length k < 2 ^ 32" "length v < 2 ^ 32"
       "hb = be32 (length k) @ map of_nat k @ be32 (length v) @ map of_nat v @ more"
    by (auto simp: kv pack_I_def ascii_encode a split: sum.splits if_splits)
  from Cons.IH[OF a(3) m(1)] m show ?case
    by (simp add: kv pair_bytes_def)
qed

lemma header_entry_pair:
  assumes "ascii k" "ascii v" "length k < 2 ^ 32" "length v < 2 ^ 32"
  shows "header_entry (pre @ pair_bytes (k, v) @ post) (length pre) acc
           = Inr (length pre + length (pair_bytes (k, v)), dict_set acc k (JStr v))"
proof -
  let ?mb = "pre @ pair_bytes (k, v) @ post"
  let ?o = "length pre"
  have s1: "bslice ?mb ?o (?o + 4) = be32 (length k)"
    using bslice_middle[of pre "be32 (length k)" "map of_nat k @ be32 (length v) @ map of_nat v @ post"]
    by (simp add: pair_bytes_def)
  have s2: "bslice ?mb (?o + 4) (?o + 4 + length k) = map of_nat k"
    using bslice_middle[of "pre @ be32 (length k)" "map of_nat k" "be32 (length v) @ map of_nat v @ post"]
    by (simp add: pair_bytes_def)
  have s3: "bslice ?mb (?o + 4 + length k) (?o + 4 + length k + 4) = be32 (length v)"
    using bslice_middle[of "pre @ be32 (length k) @ map of_nat k" "be32 (length v)" "map of_nat v @ post"]
    by (simp add: pair_bytes_def add.assoc)
  have s4: "bslice ?mb (?o + 4 + length k + 4) (?o + 4 + length k + 4 + length v) = map of_nat v"
    using bslice_middle[of "pre @ be32 (length k) @ map of_nat k @ be32 (length v)" "map of_nat v" post]
    by (simp add: pair_bytes_def add.assoc)
  show ?thesis
    unfolding header_entry_def Let_def
    by (simp only: s1 s2 s3 s4 unpack_I_be32[OF assms(3)] unpack_I_be32[OF assms(4)]
          ascii_decode[OF assms(1)] ascii_decode[OF assms(2)] sum.case length_pair_bytes fst_conv snd_conv)
       simp
qed

text \<open>The loop condition along the pairs: true before each pair, false after the last.\<close>

fun loop_runs :: "nat \<Rightarrow> nat \<Rightarrow> (pystr \<times> pystr) list \<Rightarrow> bool" where
  "loop_runs dl off [] = (dl \<le> off)"
| "loop_runs dl off (kv # kvs) = (off < dl \<and> loop_runs dl (off + length (pair_bytes kv)) kvs)"

lemma header_loop_pairs:
  assumes "ascii_headers kvs"
    and "\<forall>kv \<in> set kvs. length (fst kv) < 2 ^ 32 \<and> length (snd kv) < 2 ^ 32"
    and "loop_runs dl (length pre) kvs"
  shows "header_loop (pre @ concat (map pair_bytes kvs)) dl (length pre) acc
           = Inr (fold (\<lambda>kv d. dict_set d (fst kv) (JStr (snd kv))) kvs acc)"
  using assms
proof (induction kvs arbitrary: pre acc)
  case Nil
  then show ?case by (simp add: header_loop.simps)
next
  case (Cons kv kvs)
  obtain k v where kv: "kv = (k, v)" by (cases kv)
  from Cons.prems have a: "ascii k" "ascii v" "length k < 2 ^ 32" "length v < 2 ^ 32"
    by (simp_all add: ascii_headers_def kv)
  from Cons.prems have rest: "ascii_headers kvs"
    "\<forall>kv \<in> set kvs. length (fst kv) < 2 ^ 32 \<and> length (snd kv) < 2 ^ 32"
    "loop_runs dl (length (pre @ pair_bytes kv)) kvs" "length pre < dl"
    by (simp_all add: ascii_headers_def)
  have e: "header_entry (pre @ concat (map pair_bytes (kv # kvs))) (length pre) acc
             = Inr (length (pre @ pair_bytes kv), dict_set acc k (JStr v))"
    using header_entry_pair[OF a, of pre "concat (map pair_bytes kvs)" acc]
    by (simp add: kv)
  have "header_loop (pre @ concat (map pair_bytes (kv # kvs))) dl (length pre) acc
          = header_loop ((pre @ pair_bytes kv) @ concat (map pair_bytes kvs)) dl
              (length (pre @ pair_bytes kv)) (dict_set acc k (JStr v))"
    using rest(4) e
    by (subst header_loop.simps) simp
  also have "\<dots> = Inr (fold (\<lambda>kv d. dict_set d (fst kv) (JStr (snd kv))) kvs
                        (dict_set acc k (JStr v)))"
    by (rule Cons.IH[OF rest(1,2,3)])
  finally show ?case by (simp add: kv)
qed

lemma pair_bytes_last_le:
  "kvs \<noteq> [] \<Longrightarrow> length (pair_bytes (last kvs)) \<le> length (concat (map pair_bytes kvs))"
  by (induction kvs) auto

lemma loop_runs_last:
  assumes "off + length (concat (map pair_bytes kvs)) = 9 + dl"
    and "kvs \<noteq> [] \<longrightarrow> 9 < length (pair_bytes (last kvs))"
  shows "loop_runs dl off kvs"
  using assms
proof (induction kvs arbitrary: off)
  case Nil then show ?case by simp
next
  case (Cons kv kvs)
  have "9 < length (concat (map pair_bytes (kv # kvs)))"
    using Cons.prems(2) pair_bytes_last_le[of "kv # kvs"] by simp
  with Cons.prems(1) have "off < dl" by simp
  moreover have "loop_runs dl (off + length (pair_bytes kv)) kvs"
    using Cons.prems by (intro Cons.IH) auto
  ultimately show ?case by simp
qed

lemma dict_set_fresh: "k \<notin> fst ` set d \<Longrightarrow> dict_set d k v = d @ [(k, v)]"
  by (induction d) auto

lemma fold_dict_set_distinct:
  assumes "distinct (map fst acc @ map fst kvs)"
  shows "fold (\<lambda>kv d. dict_set d (fst kv) (JStr (snd kv))) kvs acc
           = acc @ map (\<lambda>kv. (fst kv, JStr (snd kv))) kvs"
  using assms
proof (induction kvs arbitrary: acc)
  case Nil then show ?case by simp
next
  case (Cons kv kvs)
  have f: "fst kv \<notin> fst ` set acc" using Cons.prems by auto
  have "distinct (map fst (acc @ [(fst kv, JStr (snd kv))]) @ map fst kvs)"
    using Cons.prems by auto
  from Cons.IH[OF this] show ?case by (simp add: dict_set_fresh[OF f])
qed


lemma encode_headers_append:
  assumes "encode_headers kvs = Inr bs" "utf8_encode k = Inr kb" "utf8_encode v = Inr vb"
    and "length k < 2 ^ 32" "length v < 2 ^ 32"
  shows "encode_headers (kvs @ [(k, v)]) = Inr (bs @ be32 (length k) @ kb @ be32 (length v) @ vb)"
  using assms(1)
proof (induction kvs arbitrary: bs)
  case Nil
  with assms(2-5) show ?case by (simp add: pack_I_def)
next
  case (Cons kv kvs)
  obtain k' v' where kv: "kv = (k', v')" by (cases kv)
  from Cons.prems obtain more where "encode_headers kvs = Inr more"
    by (auto simp: kv split: sum.splits)
  with Cons.IH[OF this] Cons.prems show ?case
    by (auto simp: kv split: sum.splits)
qed

lemma decode_encoded_headers:
  assumes "ascii_headers kvs" and "distinct (map fst kvs)"
    and "kvs \<noteq> [] \<longrightarrow> 2 \<le> length (fst (last kvs)) + length (snd (last kvs))"
    and "encode_headers kvs = Inr hb"
    and "frame_size < 2 ^ 32" and "length hb < 2 ^ 32"
  shows "decode_headers (be32 frame_size @ [0] @ be32 (length hb) @ hb)
           = Inr (JObj [(str ''metadata'',
                         JObj [(str ''message_length'', JInt (int frame_size)),
                               (str ''version'', JInt 0),
                               (str ''header_length'', JInt (int (length hb)))]),
                        (str ''headers'', JObj (map (\<lambda>kv. (fst kv, JStr (snd kv))) kvs))])"
proof -
  let ?pre = "be32 frame_size @ [0] @ be32 (length hb)"
  have hb: "hb = concat (map pair_bytes kvs)"
    and lens: "\<forall>kv \<in> set kvs. length (fst kv) < 2 ^ 32 \<and> length (snd kv) < 2 ^ 32"
    using encode_headers_ascii[OF assms(1,4)] by simp_all
  have pre: "length ?pre = 9" by simp
  have runs: "loop_runs (length hb) (length ?pre) kvs"
    using assms(3) by (intro loop_runs_last) (auto simp: hb length_pair_bytes)
  let ?mb = "be32 frame_size @ [0] @ be32 (length hb) @ hb"
  have "header_loop (?pre @ hb) (length hb) (length ?pre) []
                = Inr (map (\<lambda>kv. (fst kv, JStr (snd kv))) kvs)"
    using header_loop_pairs[OF assms(1) lens runs, of "[]"]
      fold_dict_set_distinct[of "[]" kvs] assms(2)
    by (simp add: hb)
  then have loop: "header_loop ?mb (length hb) 9 []
                = Inr (map (\<lambda>kv. (fst kv, JStr (snd kv))) kvs)"
    by simp
  have s1: "bslice ?mb 0 4 = be32 frame_size"
    using bslice_middle[of "[]" "be32 frame_size" "[0] @ be32 (length hb) @ hb"] by simp
  have s2: "bslice ?mb 4 5 = [0]"
    using bslice_middle[of "be32 frame_size" "[0]" "be32 (length hb) @ hb"] by simp
  have s3: "bslice ?mb 5 9 = be32 (length hb)"
    using bslice_middle[of "be32 frame_size @ [0]" "be32 (length hb)" hb] by simp
  have v: "unpack_B [0] = Inr 0" by (simp add: unpack_B_def be_nat_def)
  show ?thesis
    unfolding decode_headers_def Let_def
    by (simp only: s1 s2 s3 v loop unpack_I_be32[OF assms(5)] unpack_I_be32[OF assms(6)] sum.case)
       simp
qed



lemma encode_user_agent:
  "encode_headers [(str ''user-agent'', str ''test'')]
     = Inr ([0, 0, 0, 10] @ map of_nat (str ''user-agent'') @ [0, 0, 0, 4] @ map of_nat (str ''test''))"
  by (simp add: str_def utf8_char_def pack_I_def be32_def)

text \<open>
  C5 (amended).  The header loop of \<open>encode_data\<close> appends, for each key/value pair in
  the order supplied, the 4-byte big-endian \<open>len\<close> of the key, the UTF-8 key bytes, the
  4-byte big-endian \<open>len\<close> of the value and the UTF-8 value bytes.  For a mapping with
  distinct ASCII keys and ASCII values whose last pair has key and value lengths summing
  to at least 2, \<open>decode_headers\<close> on the 9-byte metadata prefix (header length equal to
  the block's byte length) followed by those bytes gives back the identical mapping.  The
  headers \<open>{"user-agent": "test"}\<close> encode to \<open>0000000A "user-agent" 00000004 "test"\<close>.
\<close>

theorem header_encoding:
  "(\<forall>kvs bs k v kb vb.
      encode_headers kvs = Inr bs \<and> utf8_encode k = Inr kb \<and> utf8_encode v = Inr vb
      \<and> length k < 2 ^ 32 \<and> length v < 2 ^ 32
      \<longrightarrow> encode_headers (kvs @ [(k, v)])
            = Inr (bs @ be32 (length k) @ kb @ be32 (length v) @ vb))
   \<and> (\<forall>kvs hb frame_size.
        ascii_headers kvs \<and> distinct (map fst kvs)
        \<and> (kvs \<noteq> [] \<longrightarrow> 2 \<le> length (fst (last kvs)) + length (snd (last kvs)))
        \<and> encode_headers kvs = Inr hb \<and> frame_size < 2 ^ 32 \<and> length hb < 2 ^ 32
        \<longrightarrow> decode_headers (be32 frame_size @ [0] @ be32 (length hb) @ hb)
              = Inr (JObj [(str ''metadata'',
                            JObj [(str ''message_length'', JInt (int frame_size)),
                                  (str ''version'', JInt 0),
                                  (str ''header_length'', JInt (int (length hb)))]),
                           (str ''headers'',
                            JObj (map (\<lambda>kv. (fst kv, JStr (snd kv))) kvs))]))
   \<and> encode_headers [(str ''user-agent'', str ''test'')]
        = Inr ([0, 0, 0, 10] @ map of_nat (str ''user-agent'')
               @ [0, 0, 0, 4] @ map of_nat (str ''test''))"
proof (intro conjI allI impI)
  fix kvs :: "(pystr \<times> pystr) list" and bs kb vb :: "byte list" and k v :: pystr
  assume "encode_headers kvs = Inr bs \<and> utf8_encode k = Inr kb \<and> utf8_encode v = Inr vb
      \<and> length k < 2 ^ 32 \<and> length v < 2 ^ 32"
  then show "encode_headers (kvs @ [(k, v)])
            = Inr (bs @ be32 (length k) @ kb @ be32 (length v) @ vb)"
    by (intro encode_headers_append) simp_all
next
  fix kvs :: "(pystr \<times> pystr) list" and hb :: "byte list" and frame_size :: nat
  assume "ascii_headers kvs \<and> distinct (map fst kvs)
        \<and> (kvs \<noteq> [] \<longrightarrow> 2 \<le> length (fst (last kvs)) + length (snd (last kvs)))
        \<and> encode_headers kvs = Inr hb \<and> frame_size < 2 ^ 32 \<and> length hb < 2 ^ 32"
  then show "decode_headers (be32 frame_size @ [0] @ be32 (length hb) @ hb)
              = Inr (JObj [(str ''metadata'',
                            JObj [(str ''message_length'', JInt (int frame_size)),
                                  (str ''version'', JInt 0),
                                  (str ''header_length'', JInt (int (length hb)))]),
                           (str ''headers'',
                            JObj (map (\<lambda>kv. (fst kv, JStr (snd kv))) kvs))])"
    by (intro decode_encoded_headers) simp_all
next
  show "encode_headers [(str ''user-agent'', str ''test'')]
        = Inr ([0, 0, 0, 10] @ map of_nat (str ''user-agent'')
               @ [0, 0, 0, 4] @ map of_nat (str ''test''))"
    by (rule encode_user_agent)
qed

theorem header_encoding_witness:
  "decode_headers ([0, 0, 0, 50, 0, 0, 0, 0, 22, 0, 0, 0, 10] @ map of_nat (str ''user-agent'')
                   @ [0, 0, 0, 4] @ map of_nat (str ''test''))
     = Inr (JObj [(str ''metadata'',
                   JObj [(str ''message_length'', JInt 50), (str ''version'', JInt 0),
                         (str ''header_length'', JInt 22)]),
                  (str ''headers'', JObj [(str ''user-agent'', JStr (str ''test''))])])
   \<and> encode_headers ([(str ''user-agent'', str ''test'')] @ [(str ''a'', str ''b'')])
     = Inr ([0, 0, 0, 10] @ map of_nat (str ''user-agent'') @ [0, 0, 0, 4] @ map of_nat (str ''test'')
            @ be32 1 @ [0x61] @ be32 1 @ [0x62])"
proof -
  let ?kvs = "[(str ''user-agent'', str ''test'')]"
  let ?hb = "[0, 0, 0, 10] @ map of_nat (str ''user-agent'') @ [0, 0, 0, 4] @ map of_nat (str ''test'') :: byte list"
  have e: "encode_headers ?kvs = Inr ?hb" by (simp add: str_def utf8_char_def pack_I_def be32_def)
  have h: "ascii_headers ?kvs \<and> distinct (map fst ?kvs)
        \<and> (?kvs \<noteq> [] \<longrightarrow> 2 \<le> length (fst (last ?kvs)) + length (snd (last ?kvs)))
        \<and> (50::nat) < 2 ^ 32 \<and> length ?hb < 2 ^ 32"
    by (simp add: ascii_headers_def ascii_def str_def)
  have u: "utf8_encode (str ''a'') = Inr [0x61] \<and> utf8_encode (str ''b'') = Inr [0x62]
        \<and> length (str ''a'') < 2 ^ 32 \<and> length (str ''b'') < 2 ^ 32
        \<and> length (str ''a'') = 1 \<and> length (str ''b'') = 1"
    by (simp add: str_def utf8_char_def)
  have l: "be32 50 @ [0] @ be32 (length ?hb) @ ?hb
            = [0, 0, 0, 50, 0, 0, 0, 0, 22, 0, 0, 0, 10] @ map of_nat (str ''user-agent'')
                   @ [0, 0, 0, 4] @ map of_nat (str ''test'')"
    by (simp add: be32_def str_def)
  have r1: "decode_headers (be32 50 @ [0] @ be32 (length ?hb) @ ?hb)
              = Inr (JObj [(str ''metadata'',
                            JObj [(str ''message_length'', JInt (int 50)),
                                  (str ''version'', JInt 0),
                                  (str ''header_length'', JInt (int (length ?hb)))]),
                           (str ''headers'',
                            JObj (map (\<lambda>kv. (fst kv, JStr (snd kv))) ?kvs))])"
    using header_encoding[THEN conjunct2, THEN conjunct1, rule_format, of ?kvs ?hb 50] e h
    by blast
  have r2: "encode_headers (?kvs @ [(str ''a'', str ''b'')])
              = Inr (?hb @ be32 (length (str ''a'')) @ [0x61] @ be32 (length (str ''b'')) @ [0x62])"
    using header_encoding[THEN conjunct1, rule_format, of ?kvs ?hb "str ''a''" "[0x61]" "str ''b''" "[0x62]"] e u
    by blast
  have len: "int (length ?hb) = 22" by (simp add: str_def)
  from r1 r2 show ?thesis
    unfolding l len using u by simp
qed

text \<open>
  C5 as stated fails twice.  The key \<open>user-agent\<close> has ten characters, so its length
  field is \<open>0000000A\<close>, not \<open>00000009\<close>.  And the mapping \<open>{"a": ""}\<close> encodes to a
  nine-byte block, on which the loop of \<open>decode_headers\<close>, which compares the offset
  (starting at 9) with the header length 9, never runs: the mapping read back is empty.
\<close>

theorem header_scenario_counterexample:
  "encode_headers [(str ''user-agent'', str ''test'')]
     \<noteq> Inr ([0, 0, 0, 9] @ map of_nat (str ''user-agent'') @ [0, 0, 0, 4] @ map of_nat (str ''test''))
   \<and> encode_headers [(str ''a'', [])] = Inr [0, 0, 0, 1, 0x61, 0, 0, 0, 0]
   \<and> decode_headers ([0, 0, 0, 14, 0, 0, 0, 0, 9] @ [0, 0, 0, 1, 0x61, 0, 0, 0, 0])
       = Inr (JObj [(str ''metadata'',
                     JObj [(str ''message_length'', JInt 14), (str ''version'', JInt 0),
                           (str ''header_length'', JInt 9)]),
                    (str ''headers'', JObj [])])"
proof (intro conjI)
  show "encode_headers [(str ''user-agent'', str ''test'')]
     \<noteq> Inr ([0, 0, 0, 9] @ map of_nat (str ''user-agent'') @ [0, 0, 0, 4] @ map of_nat (str ''test''))"
    by (simp add: str_def utf8_char_def pack_I_def be32_def)
  show "encode_headers [(str ''a'', [])] = Inr [0, 0, 0, 1, 0x61, 0, 0, 0, 0]"
    by (simp add: str_def utf8_char_def pack_I_def be32_def)
  show "decode_headers ([0, 0, 0, 14, 0, 0, 0, 0, 9] @ [0, 0, 0, 1, 0x61, 0, 0, 0, 0])
       = Inr (JObj [(str ''metadata'',
                     JObj [(str ''message_length'', JInt 14), (str ''version'', JInt 0),
                           (str ''header_length'', JInt 9)]),
                    (str ''headers'', JObj [])])"
    by code_simp
qed

section \<open>Reading the Thrift binary protocol\<close>


abbreviation T_STOP :: int where "T_STOP \<equiv> 0"
abbreviation T_BOOL :: int where "T_BOOL \<equiv> 2"
abbreviation T_BYTE :: int where "T_BYTE \<equiv> 3"
abbreviation T_DOUBLE :: int where "T_DOUBLE \<equiv> 4"
abbreviation T_I16 :: int where "T_I16 \<equiv> 6"
abbreviation T_I32 :: int where "T_I32 \<equiv> 8"
abbreviation T_I64 :: int where "T_I64 \<equiv> 10"
abbreviation T_STRING :: int where "T_STRING \<equiv> 11"
abbreviation T_STRUCT :: int where "T_STRUCT \<equiv> 12"
abbreviation T_MAP :: int where "T_MAP \<equiv> 13"
abbreviation T_SET :: int where "T_SET \<equiv> 14"
abbreviation T_LIST :: int where "T_LIST \<equiv> 15"

fun digits :: "nat \<Rightarrow> pystr" where
  "digits n = (if n < 10 then [48 + n] else digits (n div 10) @ [48 + n mod 10])"

declare digits.simps [simp del]

lemma digits_small [simp]: "n < 10 \<Longrightarrow> digits n = [48 + n]"
  by (simp add: digits.simps)

lemma digits_large [simp]: "\<not> n < 10 \<Longrightarrow> digits n = digits (n div 10) @ [48 + n mod 10]"
  by (subst digits.simps) simp

definition str_int :: "int \<Rightarrow> pystr" where
  "str_int i = (if i < 0 then 45 # digits (nat (- i)) else digits (nat i))"

definition str_bool :: "bool \<Rightarrow> pystr" where
  "str_bool b = (if b then str ''True'' else str ''False'')"

definition readAll :: "nat \<Rightarrow> byte list \<Rightarrow> exn + (byte list \<times> byte list)" where
  "readAll sz s = (if sz \<le> length s then Inr (take sz s, drop sz s) else Inl EOFError)"

definition be_int :: "byte list \<Rightarrow> int" where
  "be_int bs = (let u = int (be_nat bs); m = 2 ^ (8 * length bs)
                in if 2 * u \<ge> m then u - m else u)"

definition read_int :: "nat \<Rightarrow> byte list \<Rightarrow> exn + (int \<times> byte list)" where
  "read_int n s = (case readAll n s of Inl e \<Rightarrow> Inl e | Inr (b, s') \<Rightarrow> Inr (be_int b, s'))"

definition readByte :: "byte list \<Rightarrow> exn + (int \<times> byte list)" where
  "readByte = read_int 1"
definition readI16 :: "byte list \<Rightarrow> exn + (int \<times> byte list)" where
  "readI16 = read_int 2"
definition readI32 :: "byte list \<Rightarrow> exn + (int \<times> byte list)" where
  "readI32 = read_int 4"
definition readI64 :: "byte list \<Rightarrow> exn + (int \<times> byte list)" where
  "readI64 = read_int 8"

definition readBool :: "byte list \<Rightarrow> exn + (bool \<times> byte list)" where
  "readBool s = (case readByte s of Inl e \<Rightarrow> Inl e | Inr (b, s') \<Rightarrow> Inr (b \<noteq> 0, s'))"

definition readDouble :: "byte list \<Rightarrow> exn + (64 word \<times> byte list)" where
  "readDouble s = (case readAll 8 s of Inl e \<Rightarrow> Inl e
                   | Inr (b, s') \<Rightarrow> Inr (of_nat (be_nat b), s'))"

definition readString :: "byte list \<Rightarrow> exn + (pystr \<times> byte list)" where
  "readString s =
     (case readI32 s of Inl e \<Rightarrow> Inl e | Inr (sz, s1) \<Rightarrow>
        if sz < 0 then Inl TProtocolException
        else (case readAll (nat sz) s1 of Inl e \<Rightarrow> Inl e | Inr (b, s2) \<Rightarrow>
               (case utf8_decode b of Inl e \<Rightarrow> Inl e | Inr v \<Rightarrow> Inr (v, s2))))"


text \<open>\<open>readMessageBegin\<close> of \<open>TBinaryProtocol\<close> with \<open>strictRead=False\<close>.\<close>

definition readMessageBegin :: "byte list \<Rightarrow> exn + ((pystr \<times> int \<times> int) \<times> byte list)" where
  "readMessageBegin s =
     (case readI32 s of Inl e \<Rightarrow> Inl e | Inr (sz, s1) \<Rightarrow>
        if sz < 0 then
          (if (sz + 2 ^ 32) div 65536 \<noteq> 0x8001 then Inl TProtocolException
           else let type = sz mod 256 in
             (case readString s1 of Inl e \<Rightarrow> Inl e | Inr (name, s2) \<Rightarrow>
              (case readI32 s2 of Inl e \<Rightarrow> Inl e | Inr (seqid, s3) \<Rightarrow>
                 Inr ((name, type, seqid), s3))))
        else
          (case readAll (nat sz) s1 of Inl e \<Rightarrow> Inl e | Inr (b, s2) \<Rightarrow>
           (case utf8_decode b of Inl e \<Rightarrow> Inl e | Inr name \<Rightarrow>
            (case readByte s2 of Inl e \<Rightarrow> Inl e | Inr (type, s3) \<Rightarrow>
             (case readI32 s3 of Inl e \<Rightarrow> Inl e | Inr (seqid, s4) \<Rightarrow>
                Inr ((name, type, seqid), s4))))))"

definition readFieldBegin :: "byte list \<Rightarrow> exn + ((int \<times> int) \<times> byte list)" where
  "readFieldBegin s =
     (case readByte s of Inl e \<Rightarrow> Inl e | Inr (type, s1) \<Rightarrow>
        if type = T_STOP then Inr ((type, 0), s1)
        else (case readI16 s1 of Inl e \<Rightarrow> Inl e | Inr (fid, s2) \<Rightarrow> Inr ((type, fid), s2)))"

definition readListBegin :: "byte list \<Rightarrow> exn + ((int \<times> int) \<times> byte list)" where
  "readListBegin s =
     (case readByte s of Inl e \<Rightarrow> Inl e | Inr (etype, s1) \<Rightarrow>
      (case readI32 s1 of Inl e \<Rightarrow> Inl e | Inr (sz, s2) \<Rightarrow>
         if sz < 0 then Inl TProtocolException else Inr ((etype, sz), s2)))"

definition readSetBegin :: "byte list \<Rightarrow> exn + ((int \<times> int) \<times> byte list)" where
  "readSetBegin = readListBegin"

definition readMapBegin :: "byte list \<Rightarrow> exn + ((int \<times> int \<times> int) \<times> byte list)" where
  "readMapBegin s =
     (case readByte s of Inl e \<Rightarrow> Inl e | Inr (ktype, s1) \<Rightarrow>
      (case readByte s1 of Inl e \<Rightarrow> Inl e | Inr (vtype, s2) \<Rightarrow>
       (case readI32 s2 of Inl e \<Rightarrow> Inl e | Inr (sz, s3) \<Rightarrow>
          if sz < 0 then Inl TProtocolException else Inr ((ktype, vtype, sz), s3))))"

text \<open>
  A loop \<open>for i in range(n)\<close> over a state: \<open>for_range i n body st\<close> runs the body
  for the \<open>n\<close> indices from \<open>i\<close> on and stops at the first exception.
\<close>

fun for_range :: "nat \<Rightarrow> nat \<Rightarrow> (nat \<Rightarrow> 'st \<Rightarrow> exn + 'st) \<Rightarrow> 'st \<Rightarrow> exn + 'st" where
  "for_range i 0 body st = Inr st"
| "for_range i (Suc n) body st =
     (case body i st of Inl e \<Rightarrow> Inl e | Inr st' \<Rightarrow> for_range (Suc i) n body st')"

lemma for_range_cong [fundef_cong]:
  "i = j \<Longrightarrow> n = m \<Longrightarrow> (\<And>k t. f k t = g k t) \<Longrightarrow> st = st'
     \<Longrightarrow> for_range i n f st = for_range j m g st'"
proof -
  assume "i = j" "n = m" "st = st'" and "\<And>k t. f k t = g k t"
  then have "f = g" by (intro ext)
  with \<open>i = j\<close> \<open>n = m\<close> \<open>st = st'\<close> show ?thesis by simp
qed

text \<open>\<open>TProtocolBase.skip\<close>.\<close>

fun skip :: "nat \<Rightarrow> int \<Rightarrow> byte list \<Rightarrow> exn + byte list"
  and skip_fields :: "nat \<Rightarrow> byte list \<Rightarrow> exn + byte list" where
  "skip 0 ttype s = Inl RecursionError"
| "skip (Suc d) ttype s =
     (if ttype = T_BOOL then map_sum id snd (readBool s)
      else if ttype = T_BYTE then map_sum id snd (readByte s)
      else if ttype = T_I16 then map_sum id snd (readI16 s)
      else if ttype = T_I32 then map_sum id snd (readI32 s)
      else if ttype = T_I64 then map_sum id snd (readI64 s)
      else if ttype = T_DOUBLE then map_sum id snd (readDouble s)
      else if ttype = T_STRING then map_sum id snd (readString s)
      else if ttype = T_STRUCT then skip_fields d s
      else if ttype = T_MAP then
        (case readMapBegin s of Inl e \<Rightarrow> Inl e | Inr ((ktype, vtype, sz), s1) \<Rightarrow>
           for_range 0 (nat sz)
             (\<lambda>i t. case skip d ktype t of Inl e \<Rightarrow> Inl e | Inr t1 \<Rightarrow> skip d vtype t1) s1)
      else if ttype = T_SET then
        (case readSetBegin s of Inl e \<Rightarrow> Inl e | Inr ((etype, sz), s1) \<Rightarrow>
           for_range 0 (nat sz) (\<lambda>i t. skip d etype t) s1)
      else if ttype = T_LIST then
        (case readListBegin s of Inl e \<Rightarrow> Inl e | Inr ((etype, sz), s1) \<Rightarrow>
           for_range 0 (nat sz) (\<lambda>i t. skip d etype t) s1)
      else Inl TProtocolException)"
| "skip_fields 0 s = Inl RecursionError"
| "skip_fields (Suc d) s =
     (case readFieldBegin s of Inl e \<Rightarrow> Inl e | Inr ((ttype, fid), s1) \<Rightarrow>
        if ttype = T_STOP then Inr s1
        else (case skip d ttype s1 of Inl e \<Rightarrow> Inl e | Inr s2 \<Rightarrow> skip_fields d s2))"


section \<open>The response handler \<open>CustomResponseMessage\<close>\<close>


text \<open>
  What the converter takes from outside the repository is a parameter of the model: the
  text \<open>str(e)\<close> of an exception, \<open>ThriftMessage.read\<close> of \<open>thrift_tools\<close> (the
  \<open>as_dict\<close> of the message read, \<open>None\<close> for a false result, or the exception raised),
  and the two operations of the Thrift protocol object whose behaviour differs between
  releases of the library, \<open>skip\<close> and \<open>readMessageBegin\<close>.
\<close>

record runtime =
  exn_text :: "exn \<Rightarrow> pystr"
  thrift_message_read :: "byte list \<Rightarrow> exn + json option"
  protocol_skip :: "int \<Rightarrow> byte list \<Rightarrow> exn + byte list"
  protocol_readMessageBegin :: "byte list \<Rightarrow> exn + ((pystr \<times> int \<times> int) \<times> byte list)"

definition get_type_name :: "int \<Rightarrow> pystr" where
  "get_type_name type_id =
     (if type_id = T_BOOL then str ''bool''
      else if type_id = T_BYTE then str ''i8''
      else if type_id = T_I16 then str ''i16''
      else if type_id = T_I32 then str ''i32''
      else if type_id = T_I64 then str ''i64''
      else if type_id = T_DOUBLE then str ''double''
      else if type_id = T_STRING then str ''string''
      else if type_id = T_STRUCT then str ''struct''
      else if type_id = T_MAP then str ''map''
      else if type_id = T_SET then str ''set''
      else if type_id = T_LIST then str ''list''
      else str ''unknown-'' @ str_int type_id)"

definition note_doc :: "pystr \<Rightarrow> json" where
  "note_doc msg = JObj [(str ''note'', JStr msg)]"

definition field_doc :: "int \<Rightarrow> int \<Rightarrow> json \<Rightarrow> json" where
  "field_doc field_id field_type v =
     JObj [(str ''field_id'', JInt field_id),
           (str ''field_type'', JStr (get_type_name field_type)),
           (str ''value'', v)]"

definition struct_doc :: "json list \<Rightarrow> json" where
  "struct_doc fs = JObj [(str ''fields'', JList fs)]"

text \<open>A value read, or the placeholder followed by \<open>protocol.skip\<close> where the tag is unknown.\<close>

definition or_skip ::
  "runtime \<Rightarrow> int \<Rightarrow> json \<Rightarrow> exn + (json option \<times> byte list) \<Rightarrow> exn + (json \<times> byte list)" where
  "or_skip rt ttype placeholder r =
     (case r of
        Inl e \<Rightarrow> Inl e
      | Inr (Some v, s) \<Rightarrow> Inr (v, s)
      | Inr (None, s) \<Rightarrow> (case protocol_skip rt ttype s of Inl e \<Rightarrow> Inl e | Inr s' \<Rightarrow> Inr (placeholder, s')))"

fun read_known :: "runtime \<Rightarrow> nat \<Rightarrow> int \<Rightarrow> byte list \<Rightarrow> exn + (json option \<times> byte list)"
  and read_fields :: "runtime \<Rightarrow> nat \<Rightarrow> byte list \<Rightarrow> exn + (json list \<times> byte list)"
  and read_list :: "runtime \<Rightarrow> nat \<Rightarrow> byte list \<Rightarrow> exn + (json \<times> byte list)"
  and read_set :: "runtime \<Rightarrow> nat \<Rightarrow> byte list \<Rightarrow> exn + (json \<times> byte list)"
  and read_map :: "runtime \<Rightarrow> nat \<Rightarrow> byte list \<Rightarrow> exn + (json \<times> byte list)" where
  "read_known rt 0 ttype s = Inl RecursionError"
| "read_known rt (Suc d) ttype s =
     (if ttype = T_BOOL then map_sum id (apfst (Some \<circ> JBool)) (readBool s)
      else if ttype = T_BYTE then map_sum id (apfst (Some \<circ> JInt)) (readByte s)
      else if ttype = T_I16 then map_sum id (apfst (Some \<circ> JInt)) (readI16 s)
      else if ttype = T_I32 then map_sum id (apfst (Some \<circ> JInt)) (readI32 s)
      else if ttype = T_I64 then map_sum id (apfst (Some \<circ> JInt)) (readI64 s)
      else if ttype = T_DOUBLE then map_sum id (apfst (Some \<circ> JFloat)) (readDouble s)
      else if ttype = T_STRING then map_sum id (apfst (Some \<circ> JStr)) (readString s)
      else if ttype = T_STRUCT then map_sum id (apfst (Some \<circ> struct_doc)) (read_fields rt d s)
      else if ttype = T_LIST then map_sum id (apfst Some) (read_list rt d s)
      else if ttype = T_SET then map_sum id (apfst Some) (read_set rt d s)
      else if ttype = T_MAP then map_sum id (apfst Some) (read_map rt d s)
      else Inr (None, s))"
| "read_fields rt 0 s = Inl RecursionError"
| "read_fields rt (Suc d) s =
     (case readFieldBegin s of
        Inl e \<Rightarrow> Inl e
      | Inr ((field_type, field_id), s1) \<Rightarrow>
          if field_type = T_STOP then Inr ([], s1)
          else
            (case or_skip rt field_type
                    (note_doc (str ''Unknown type '' @ str_int field_type))
                    (read_known rt d field_type s1) of
               Inl e \<Rightarrow> Inl e
             | Inr (v, s2) \<Rightarrow>
                 (case read_fields rt d s2 of
                    Inl e \<Rightarrow> Inl e
                  | Inr (fs, s3) \<Rightarrow> Inr (field_doc field_id field_type v # fs, s3))))"
| "read_list rt 0 s = Inl RecursionError"
| "read_list rt (Suc d) s =
     (case readListBegin s of
        Inl e \<Rightarrow> Inl e
      | Inr ((element_type, sz), s1) \<Rightarrow>
          map_sum id (apfst JList)
            (for_range 0 (nat sz)
               (\<lambda>i (result, t).
                  case or_skip rt element_type
                         (note_doc (str ''Unknown element type '' @ get_type_name element_type))
                         (read_known rt d element_type t) of
                    Inl e \<Rightarrow> Inl e
                  | Inr (v, t1) \<Rightarrow> Inr (result @ [v], t1))
               ([], s1)))"
| "read_set rt 0 s = Inl RecursionError"
| "read_set rt (Suc d) s =
     (case readSetBegin s of
        Inl e \<Rightarrow> Inl e
      | Inr ((element_type, sz), s1) \<Rightarrow>
          map_sum id (apfst JList)
            (for_range 0 (nat sz)
               (\<lambda>i (result, t).
                  case or_skip rt element_type
                         (note_doc (str ''Unknown element type '' @ get_type_name element_type))
                         (read_known rt d element_type t) of
                    Inl e \<Rightarrow> Inl e
                  | Inr (v, t1) \<Rightarrow> Inr (result @ [v], t1))
               ([], s1)))"
| "read_map rt 0 s = Inl RecursionError"
| "read_map rt (Suc d) s =
     (case readMapBegin s of
        Inl e \<Rightarrow> Inl e
      | Inr ((key_type, value_type, sz), s1) \<Rightarrow>
          map_sum id (apfst JObj)
            (for_range 0 (nat sz)
               (\<lambda>i (result, t).
                  case (if key_type = T_BOOL then map_sum id (apfst str_bool) (readBool t)
                        else if key_type = T_BYTE then map_sum id (apfst str_int) (readByte t)
                        else if key_type = T_I16 then map_sum id (apfst str_int) (readI16 t)
                        else if key_type = T_STRING then readString t
                        else if key_type = T_I32 then map_sum id (apfst str_int) (readI32 t)
                        else if key_type = T_I64 then map_sum id (apfst str_int) (readI64 t)
                        else map_sum id (Pair (str ''complex_key_'' @ str_int (int i)))
                               (protocol_skip rt key_type t)) of
                    Inl e \<Rightarrow> Inl e
                  | Inr (key, t1) \<Rightarrow>
                      (case or_skip rt value_type
                              (note_doc (str ''Unknown value type '' @ get_type_name value_type))
                              (read_known rt d value_type t1) of
                         Inl e \<Rightarrow> Inl e
                       | Inr (v, t2) \<Rightarrow> Inr (dict_set result key v, t2)))
               ([], s1)))"



fun extract_fields :: "runtime \<Rightarrow> nat \<Rightarrow> byte list \<Rightarrow> exn + (json list \<times> byte list)" where
  "extract_fields rt 0 s = Inl RecursionError"
| "extract_fields rt (Suc d) s =
     (case readFieldBegin s of
        Inl e \<Rightarrow> Inl e
      | Inr ((field_type, field_id), s1) \<Rightarrow>
          if field_type = T_STOP then Inr ([], s1)
          else
            (case or_skip rt field_type
                    (note_doc (str ''Unknown type '' @ str_int field_type @ str '' (skipped)''))
                    (read_known rt d field_type s1) of
               Inl e \<Rightarrow> Inl e
             | Inr (v, s2) \<Rightarrow>
                 (case extract_fields rt d s2 of
                    Inl e \<Rightarrow> Inl e
                  | Inr (fs, s3) \<Rightarrow> Inr (field_doc field_id field_type v # fs, s3))))"

definition extract_reply :: "runtime \<Rightarrow> nat \<Rightarrow> byte list \<Rightarrow> json" where
  "extract_reply rt d s =
     (case extract_fields rt d s of
        Inl e \<Rightarrow> JObj [(str ''error'', JStr (exn_text rt e))]
      | Inr (fs, s') \<Rightarrow> struct_doc fs)"

definition CustomResponseMessage :: "runtime \<Rightarrow> nat \<Rightarrow> byte list \<Rightarrow> exn + json" where
  "CustomResponseMessage rt d thrift_frame =
     (case protocol_readMessageBegin rt thrift_frame of
        Inl e \<Rightarrow> Inl e
      | Inr ((name, msg_type, seqid), s) \<Rightarrow>
          Inr (JObj [(str ''method'', JStr name),
                     (str ''type'', JStr (str ''reply'')),
                     (str ''seqid'', JInt seqid),
                     (str ''header'', JNull),
                     (str ''reply'', extract_reply rt d s),
                     (str ''length'', JInt (int (length thrift_frame)))]))"

section \<open>The top level: \<open>decode_thrift_message\<close> and \<open>decode\<close>\<close>


text \<open>\<open>sub in text\<close> for two strings.\<close>

fun contains :: "pystr \<Rightarrow> pystr \<Rightarrow> bool" where
  "contains [] sub = (sub = [])"
| "contains (c # cs) sub = (take (length sub) (c # cs) = sub \<or> contains cs sub)"

definition unhashable_msg :: pystr where
  "unhashable_msg = str ''unhashable type: '' @ [39] @ str ''ThriftStruct'' @ [39]"

definition create_empty_thrift_message :: json where
  "create_empty_thrift_message =
     JObj [(str ''method'', JStr (str ''unknown'')),
           (str ''type'', JStr (str ''unknown'')),
           (str ''seqid'', JInt 0),
           (str ''args'', JNull),
           (str ''length'', JInt 0),
           (str ''error'', JStr (str ''Failed to parse Thrift message''))]"

definition response_markers :: "byte list list" where
  "response_markers = [[0x80, 0x01, 0x00, 0x02], [0x82, 0x21, 0x00, 0x02]]"

definition candidates :: "byte list list" where
  "candidates =
     [[0x80, 0x01, 0x00, 0x01],
      [0x80, 0x01, 0x00, 0x02],
      [0x82, 0x21, 0x00, 0x01],
      [0x82, 0x21, 0x00, 0x02],
      [0x80, 0x01],
      [0x82, 0x21]]"

text \<open>
  The body of the loop \<open>for candidate in candidates\<close> for one candidate: \<open>Some\<close> is a
  \<open>return\<close>, \<open>None\<close> is going on to the next candidate.
\<close>

definition try_candidate :: "runtime \<Rightarrow> nat \<Rightarrow> byte list \<Rightarrow> byte list \<Rightarrow> json option" where
  "try_candidate rt d thrift_frame candidate =
     (case find_bytes thrift_frame candidate of
        None \<Rightarrow> None
      | Some idx \<Rightarrow>
          let frame_slice = drop idx thrift_frame in
          if candidate \<in> set response_markers then
            (case CustomResponseMessage rt d frame_slice of
               Inl e \<Rightarrow> None
             | Inr msg \<Rightarrow> Some msg)
          else
            (case thrift_message_read rt frame_slice of
               Inr (Some msg) \<Rightarrow> Some msg
             | Inr None \<Rightarrow> None
             | Inl (TypeError te) \<Rightarrow>
                 if contains te unhashable_msg then
                   (case CustomResponseMessage rt d frame_slice of
                      Inl e \<Rightarrow> None
                    | Inr msg \<Rightarrow> Some msg)
                 else None
             | Inl e \<Rightarrow> None))"

fun try_candidates :: "runtime \<Rightarrow> nat \<Rightarrow> byte list \<Rightarrow> byte list list \<Rightarrow> json option" where
  "try_candidates rt d thrift_frame [] = None"
| "try_candidates rt d thrift_frame (candidate # cs) =
     (case try_candidate rt d thrift_frame candidate of
        Some msg \<Rightarrow> Some msg
      | None \<Rightarrow> try_candidates rt d thrift_frame cs)"

definition decode_thrift_message :: "runtime \<Rightarrow> nat \<Rightarrow> byte list \<Rightarrow> json" where
  "decode_thrift_message rt d thrift_frame =
     (case (if length thrift_frame \<ge> 4
               \<and> (take 4 thrift_frame = [0x80, 0x01, 0x00, 0x02]
                  \<or> take 4 thrift_frame = [0x82, 0x21, 0x00, 0x02])
            then (case CustomResponseMessage rt d thrift_frame of
                    Inl e \<Rightarrow> None
                  | Inr msg \<Rightarrow> Some msg)
            else None) of
        Some msg \<Rightarrow> msg
      | None \<Rightarrow>
          (case try_candidates rt d thrift_frame candidates of
             Some msg \<Rightarrow> msg
           | None \<Rightarrow> create_empty_thrift_message))"

definition error_info :: "runtime \<Rightarrow> exn \<Rightarrow> json" where
  "error_info rt e =
     JObj [(str ''error'', JStr (str ''Failed to decode message: '' @ exn_text rt e)),
           (str ''metadata'', JObj []),
           (str ''headers'', JObj []),
           (str ''thrift'',
            JObj [(str ''method'', JStr (str ''unknown'')),
                  (str ''type'', JStr (str ''unknown'')),
                  (str ''seqid'', JInt 0),
                  (str ''args'', JNull)])]"

text \<open>\<open>obj[k] = v\<close> and \<open>k in obj\<close> on a document; both raise unless it is a \<open>dict\<close>.\<close>

definition set_item :: "json \<Rightarrow> pystr \<Rightarrow> json \<Rightarrow> exn + json" where
  "set_item obj k v =
     (case obj of JObj kvs \<Rightarrow> Inr (JObj (dict_set kvs k v)) | _ \<Rightarrow> Inl (TypeError []))"

definition has_key :: "json \<Rightarrow> pystr \<Rightarrow> exn + bool" where
  "has_key obj k =
     (case obj of JObj kvs \<Rightarrow> Inr (k \<in> fst ` set kvs) | _ \<Rightarrow> Inl (TypeError []))"

text \<open>
  The \<open>try\<close> block of \<open>decode\<close>, up to the document handed to \<open>json.dumps\<close>.
  The argument \<open>file\<close> is what reading the file and decoding its base64 text gives:
  the bytes, or the exception raised there.
\<close>

definition decode_body :: "runtime \<Rightarrow> nat \<Rightarrow> exn + byte list \<Rightarrow> exn + json" where
  "decode_body rt d file =
     (case file of Inl e \<Rightarrow> Inl e | Inr data \<Rightarrow>
      (case parse_data data None of Inl e \<Rightarrow> Inl e | Inr (raw_headers, raw_thrift_frame) \<Rightarrow>
       (case decode_headers raw_headers of Inl e \<Rightarrow> Inl e | Inr message \<Rightarrow>
          let thrift_message = decode_thrift_message rt d raw_thrift_frame in
          (case set_item message (str ''thrift'') thrift_message of Inl e \<Rightarrow> Inl e | Inr message \<Rightarrow>
           (case has_key thrift_message (str ''error'') of Inl e \<Rightarrow> Inl e | Inr err \<Rightarrow>
              if err then set_item message (str ''thrift_parse_error'') (JBool True)
              else Inr message)))))"

text \<open>\<open>decode\<close>: the document that is printed or written.\<close>

definition decode :: "runtime \<Rightarrow> nat \<Rightarrow> exn + byte list \<Rightarrow> json" where
  "decode rt d file =
     (case decode_body rt d file of
        Inl e \<Rightarrow> error_info rt e
      | Inr message \<Rightarrow> message)"

text \<open>
  A sample runtime for the concrete runs below: exceptions print as a fixed text,
  \<open>ThriftMessage.read\<close> fails with the unhashable-struct \<open>TypeError\<close>, and the protocol
  object is the binary protocol modelled above.
\<close>

definition sample_runtime :: runtime where
  "sample_runtime =
     \<lparr> exn_text = (\<lambda>e. str ''decode error''),
       thrift_message_read = (\<lambda>frame. Inl (TypeError unhashable_msg)),
       protocol_skip = skip 64,
       protocol_readMessageBegin = readMessageBegin \<rparr>"

section \<open>Evaluating the readers\<close>

text \<open>Unfolding one level of depth where the depth is a numeral.\<close>

lemmas fuel_unfold [simp] =
  read_known.simps(2)[of _ "pred_numeral k", folded numeral_eq_Suc]
  read_fields.simps(2)[of _ "pred_numeral k", folded numeral_eq_Suc]
  read_list.simps(2)[of _ "pred_numeral k", folded numeral_eq_Suc]
  read_set.simps(2)[of _ "pred_numeral k", folded numeral_eq_Suc]
  read_map.simps(2)[of _ "pred_numeral k", folded numeral_eq_Suc]
  skip.simps(2)[of "pred_numeral k", folded numeral_eq_Suc]
  skip_fields.simps(2)[of "pred_numeral k", folded numeral_eq_Suc]
  extract_fields.simps(2)[of _ "pred_numeral k", folded numeral_eq_Suc]
  for_range.simps(2)[of _ "pred_numeral k", folded numeral_eq_Suc]
  for k

lemmas wire_defs = readAll_def be_int_def be_nat_def read_int_def readByte_def readI16_def
  readI32_def readI64_def readBool_def readString_def readMessageBegin_def readFieldBegin_def
  readListBegin_def readSetBegin_def readMapBegin_def utf8_decode_def is_cont_def utf8_cons_def

lemmas doc_defs = str_def str_int_def str_bool_def get_type_name_def note_doc_def field_doc_def
  struct_doc_def or_skip_def sample_runtime_def

section \<open>Properties of the response handler and of \<open>decode\<close>\<close>



lemma find_bytes_prefix:
  "take (length sub) data = sub \<Longrightarrow> data \<noteq> [] \<Longrightarrow> find_bytes data sub = Some 0"
  by (cases data) simp_all

lemma take4_length:
  assumes "take 4 xs = [a, b, c, e]"
  shows "4 \<le> length xs"
proof -
  have "length (take 4 xs) = length [a, b, c, e]" by (simp only: assms)
  then show ?thesis by simp
qed

lemma decode_thrift_message_response:
  assumes "take 4 frame \<in> set response_markers" and "CustomResponseMessage rt d frame = Inr m"
  shows "decode_thrift_message rt d frame = m"
proof -
  from assms(1) have "4 \<le> length frame"
    by (auto simp: response_markers_def dest: take4_length)
  with assms show ?thesis
    by (auto simp: decode_thrift_message_def response_markers_def)
qed

lemma decode_thrift_message_unhashable:
  assumes "take 4 frame = [0x80, 0x01, 0x00, 0x01]"
    and "thrift_message_read rt frame = Inl (TypeError te)"
    and "contains te unhashable_msg"
    and "CustomResponseMessage rt d frame = Inr m"
  shows "decode_thrift_message rt d frame = m"
proof -
  have ne: "frame \<noteq> []" using assms(1) by auto
  have f: "find_bytes frame [0x80, 0x01, 0x00, 0x01] = Some 0"
    using assms(1) ne by (intro find_bytes_prefix) (simp_all add: eval_nat_numeral)
  have "try_candidate rt d frame [0x80, 0x01, 0x00, 0x01] = Some m"
    using f assms(2-4) by (simp add: try_candidate_def response_markers_def)
  then have "try_candidates rt d frame candidates = Some m"
    by (simp add: candidates_def)
  then show ?thesis
    using assms(1) by (simp add: decode_thrift_message_def)
qed

text \<open>
  C10.  Whatever \<open>readMessageBegin\<close> returns as message kind, the document built by
  \<open>CustomResponseMessage\<close> has the constant \<open>"reply"\<close> as its type and stores the body under
  the key \<open>"reply"\<close>.  The handler's document is the result of \<open>decode_thrift_message\<close> both
  for a frame whose first four bytes are a reply marker and for a call frame on which
  \<open>ThriftMessage.read\<close> raises the unhashable-struct \<open>TypeError\<close>.
\<close>

theorem custom_handler_type_reply:
  "(CustomResponseMessage rt d frame = Inr m \<longrightarrow>
      (\<exists>name msg_type seqid s.
         protocol_readMessageBegin rt frame = Inr ((name, msg_type, seqid), s)
         \<and> m = JObj [(str ''method'', JStr name),
                     (str ''type'', JStr (str ''reply'')),
                     (str ''seqid'', JInt seqid),
                     (str ''header'', JNull),
                     (str ''reply'', extract_reply rt d s),
                     (str ''length'', JInt (int (length frame)))]))
   \<and> (take 4 frame \<in> set response_markers \<and> CustomResponseMessage rt d frame = Inr m
        \<longrightarrow> decode_thrift_message rt d frame = m)
   \<and> (take 4 frame = [0x80, 0x01, 0x00, 0x01]
        \<and> thrift_message_read rt frame = Inl (TypeError te) \<and> contains te unhashable_msg
        \<and> CustomResponseMessage rt d frame = Inr m
        \<longrightarrow> decode_thrift_message rt d frame = m)"
proof (intro conjI impI)
  assume "CustomResponseMessage rt d frame = Inr m"
  then show "\<exists>name msg_type seqid s.
         protocol_readMessageBegin rt frame = Inr ((name, msg_type, seqid), s)
         \<and> m = JObj [(str ''method'', JStr name),
                     (str ''type'', JStr (str ''reply'')),
                     (str ''seqid'', JInt seqid),
                     (str ''header'', JNull),
                     (str ''reply'', extract_reply rt d s),
                     (str ''length'', JInt (int (length frame)))]"
    by (auto simp: CustomResponseMessage_def split: sum.splits)
next
  assume "take 4 frame \<in> set response_markers \<and> CustomResponseMessage rt d frame = Inr m"
  then show "decode_thrift_message rt d frame = m"
    using decode_thrift_message_response by blast
next
  assume "take 4 frame = [0x80, 0x01, 0x00, 0x01]
        \<and> thrift_message_read rt frame = Inl (TypeError te) \<and> contains te unhashable_msg
        \<and> CustomResponseMessage rt d frame = Inr m"
  then show "decode_thrift_message rt d frame = m"
    using decode_thrift_message_unhashable by blast
qed

theorem custom_handler_type_reply_witness:
  "readMessageBegin [0x80, 1, 0, 1, 0, 0, 0, 1, 0x70, 0, 0, 0, 5, 0] = Inr ((str ''p'', 1, 5), [0])
   \<and> decode_thrift_message sample_runtime 8 [0x80, 1, 0, 1, 0, 0, 0, 1, 0x70, 0, 0, 0, 5, 0]
     = JObj [(str ''method'', JStr (str ''p'')), (str ''type'', JStr (str ''reply'')),
             (str ''seqid'', JInt 5), (str ''header'', JNull),
             (str ''reply'', JObj [(str ''fields'', JList [])]), (str ''length'', JInt 14)]"
proof -
  let ?f = "[0x80, 1, 0, 1, 0, 0, 0, 1, 0x70, 0, 0, 0, 5, 0] :: byte list"
  let ?m = "JObj [(str ''method'', JStr (str ''p'')), (str ''type'', JStr (str ''reply'')),
             (str ''seqid'', JInt 5), (str ''header'', JNull),
             (str ''reply'', JObj [(str ''fields'', JList [])]), (str ''length'', JInt 14)]"
  have r: "readMessageBegin ?f = Inr ((str ''p'', 1, 5), [0])"
    by (simp add: wire_defs str_def)
  have c: "CustomResponseMessage sample_runtime 8 ?f = Inr ?m"
    by (simp add: wire_defs doc_defs CustomResponseMessage_def extract_reply_def)
  have r': "protocol_readMessageBegin sample_runtime ?f = Inr ((str ''p'', 1, 5), [0])"
    using r by (simp add: sample_runtime_def)
  have h: "take 4 ?f = [0x80, 0x01, 0x00, 0x01]
        \<and> thrift_message_read sample_runtime ?f = Inl (TypeError unhashable_msg)
        \<and> contains unhashable_msg unhashable_msg"
    by (simp add: sample_runtime_def unhashable_msg_def str_def)
  from custom_handler_type_reply[of sample_runtime 8 ?f ?m unhashable_msg] c h r
  show ?thesis by blast
qed



lemma map_of_dict_set:
  "map_of (dict_set kvs k v) k' = (if k' = k then Some v else map_of kvs k')"
  by (induction kvs) auto

lemma decode_headers_obj:
  "decode_headers h = Inr message \<Longrightarrow> \<exists>kvs. message = JObj kvs"
  by (auto simp: decode_headers_def Let_def split: sum.splits)

lemma try_candidate_absent:
  "find_bytes t c = None \<Longrightarrow> try_candidate rt d t c = None"
  by (simp add: try_candidate_def)

lemma try_candidates_absent:
  "\<forall>c \<in> set cs. find_bytes t c = None \<Longrightarrow> try_candidates rt d t cs = None"
  by (induction cs) (simp_all add: try_candidate_absent)

lemma decode_thrift_message_absent:
  assumes "\<forall>c \<in> set candidates. find_bytes t c = None"
  shows "decode_thrift_message rt d t = create_empty_thrift_message"
proof -
  have "find_bytes t [0x80, 0x01] = None" "find_bytes t [0x82, 0x21] = None"
    using assms by (simp_all add: candidates_def)
  then have "take 2 (drop 0 t) \<noteq> [0x80, 0x01]" "take 2 (drop 0 t) \<noteq> [0x82, 0x21]"
    using find_bytes_None[of t "[0x80, 0x01]" 0] find_bytes_None[of t "[0x82, 0x21]" 0]
    by (simp_all add: numeral_2_eq_2)
  then have n2: "take 2 t \<noteq> [0x80, 0x01]" "take 2 t \<noteq> [0x82, 0x21]"
    by simp_all
  have tt: "take 2 (take 4 t) = take 2 t" by simp
  have "take 4 t \<noteq> [0x80, 0x01, 0x00, 0x02]"
  proof
    assume "take 4 t = [0x80, 0x01, 0x00, 0x02]"
    then have "take 2 t = take 2 [0x80, 0x01, 0x00, 0x02]" using tt by simp
    with n2 show False by (simp add: numeral_2_eq_2)
  qed
  moreover have "take 4 t \<noteq> [0x82, 0x21, 0x00, 0x02]"
  proof
    assume "take 4 t = [0x82, 0x21, 0x00, 0x02]"
    then have "take 2 t = take 2 [0x82, 0x21, 0x00, 0x02]" using tt by simp
    with n2 show False by (simp add: numeral_2_eq_2)
  qed
  ultimately show ?thesis
    using try_candidates_absent[OF assms]
    by (simp add: decode_thrift_message_def)
qed


lemma decode_total:
  "(\<exists>e. decode rt d file = error_info rt e)
   \<or> (\<exists>data h t kvs. file = Inr data \<and> parse_data data None = Inr (h, t)
         \<and> decode rt d file = JObj kvs
         \<and> map_of kvs (str ''thrift'') = Some (decode_thrift_message rt d t))"
proof (cases "decode_body rt d file")
  case (Inl e)
  then show ?thesis by (auto simp: decode_def)
next
  case (Inr message)
  then obtain data h t m0 where
    f: "file = Inr data" "parse_data data None = Inr (h, t)" "decode_headers h = Inr m0"
    by (auto simp: decode_body_def split: sum.splits)
  from decode_headers_obj[OF f(3)] obtain k0 where m0: "m0 = JObj k0" by blast
  let ?tm = "decode_thrift_message rt d t"
  have "\<exists>kvs. message = JObj kvs \<and> map_of kvs (str ''thrift'') = Some ?tm"
    using Inr f m0
    by (auto simp: decode_body_def Let_def set_item_def has_key_def map_of_dict_set str_def
             split: sum.splits json.splits if_splits)
  then show ?thesis using Inr f by (auto simp: decode_def)
qed




text \<open>
  C4.  \<open>decode\<close> always produces a document.  Every exception of its \<open>try\<close> block (the
  file cannot be read or decoded, no frame is located, the headers are malformed, or anything
  else is raised) gives the error document with empty \<open>metadata\<close> and \<open>headers\<close> and
  the \<open>thrift\<close> entry \<open>{method: "unknown", type: "unknown", seqid: 0, args: null}\<close>;
  otherwise the document carries the decoded message under \<open>thrift\<close>.  When no candidate
  marker occurs in the message bytes, the decoded message is the "unknown" placeholder.
\<close>

theorem decode_never_raises:
  "((\<exists>e. decode rt d file = error_info rt e)
     \<or> (\<exists>data h t kvs. file = Inr data \<and> parse_data data None = Inr (h, t)
           \<and> decode rt d file = JObj kvs
           \<and> map_of kvs (str ''thrift'') = Some (decode_thrift_message rt d t)))
   \<and> (\<forall>e. decode_body rt d file = Inl e \<longrightarrow>
          decode rt d file
            = JObj [(str ''error'', JStr (str ''Failed to decode message: '' @ exn_text rt e)),
                    (str ''metadata'', JObj []),
                    (str ''headers'', JObj []),
                    (str ''thrift'',
                     JObj [(str ''method'', JStr (str ''unknown'')),
                           (str ''type'', JStr (str ''unknown'')),
                           (str ''seqid'', JInt 0),
                           (str ''args'', JNull)])])
   \<and> (\<forall>e. file = Inl e \<longrightarrow> decode_body rt d file = Inl e)
   \<and> (\<forall>data e. file = Inr data \<and> parse_data data None = Inl e
          \<longrightarrow> decode_body rt d file = Inl e)
   \<and> (\<forall>data h t e. file = Inr data \<and> parse_data data None = Inr (h, t)
          \<and> decode_headers h = Inl e \<longrightarrow> decode_body rt d file = Inl e)
   \<and> (\<forall>t. (\<forall>c \<in> set candidates. find_bytes t c = None)
          \<longrightarrow> decode_thrift_message rt d t = create_empty_thrift_message)"
proof (intro conjI allI impI)
  show "(\<exists>e. decode rt d file = error_info rt e)
     \<or> (\<exists>data h t kvs. file = Inr data \<and> parse_data data None = Inr (h, t)
           \<and> decode rt d file = JObj kvs
           \<and> map_of kvs (str ''thrift'') = Some (decode_thrift_message rt d t))"
    by (rule decode_total)
next
  fix e assume "decode_body rt d file = Inl e"
  then show "decode rt d file
            = JObj [(str ''error'', JStr (str ''Failed to decode message: '' @ exn_text rt e)),
                    (str ''metadata'', JObj []),
                    (str ''headers'', JObj []),
                    (str ''thrift'',
                     JObj [(str ''method'', JStr (str ''unknown'')),
                           (str ''type'', JStr (str ''unknown'')),
                           (str ''seqid'', JInt 0),
                           (str ''args'', JNull)])]"
    by (simp add: decode_def error_info_def)
next
  fix e assume "file = Inl e"
  then show "decode_body rt d file = Inl e" by (simp add: decode_body_def)
next
  fix data e assume "file = Inr data \<and> parse_data data None = Inl e"
  then show "decode_body rt d file = Inl e" by (simp add: decode_body_def)
next
  fix data h t e
  assume "file = Inr data \<and> parse_data data None = Inr (h, t) \<and> decode_headers h = Inl e"
  then show "decode_body rt d file = Inl e" by (simp add: decode_body_def)
next
  fix t assume "\<forall>c \<in> set candidates. find_bytes t c = None"
  then show "decode_thrift_message rt d t = create_empty_thrift_message"
    by (rule decode_thrift_message_absent)
qed

theorem decode_never_raises_witness:
  "decode sample_runtime 8 (Inr [1, 2, 3])
     = JObj [(str ''error'', JStr (str ''Failed to decode message: '' @ str ''decode error'')),
             (str ''metadata'', JObj []),
             (str ''headers'', JObj []),
             (str ''thrift'',
              JObj [(str ''method'', JStr (str ''unknown'')),
                    (str ''type'', JStr (str ''unknown'')),
                    (str ''seqid'', JInt 0),
                    (str ''args'', JNull)])]
   \<and> decode_thrift_message sample_runtime 8 [1, 2, 3, 4, 5, 6] = create_empty_thrift_message"
proof -
  have p: "parse_data [1, 2, 3] None = Inl (ValueError no_marker_msg)"
    by (simp add: parse_data_def frugal_split_def default_markers_def byte_scan_def)
  have c: "\<forall>c \<in> set candidates. find_bytes [1, 2, 3, 4, 5, 6] c = None"
    by (simp add: candidates_def)
  have x: "exn_text sample_runtime (ValueError no_marker_msg) = str ''decode error''"
    by (simp add: sample_runtime_def)
  note t = decode_never_raises[of sample_runtime 8 "Inr [1, 2, 3]"]
  have b: "decode_body sample_runtime 8 (Inr [1, 2, 3]) = Inl (ValueError no_marker_msg)"
    using t p by blast
  have "decode sample_runtime 8 (Inr [1, 2, 3])
     = JObj [(str ''error'', JStr (str ''Failed to decode message: ''
                                   @ exn_text sample_runtime (ValueError no_marker_msg))),
             (str ''metadata'', JObj []),
             (str ''headers'', JObj []),
             (str ''thrift'',
              JObj [(str ''method'', JStr (str ''unknown'')),
                    (str ''type'', JStr (str ''unknown'')),
                    (str ''seqid'', JInt 0),
                    (str ''args'', JNull)])]"
    using t b by blast
  moreover have "decode_thrift_message sample_runtime 8 [1, 2, 3, 4, 5, 6]
                   = create_empty_thrift_message"
    using decode_never_raises[of sample_runtime 8 "Inr [1, 2, 3]"] c by blast
  ultimately show ?thesis by (simp only: x)
qed

lemma decode_placeholder_document:
  "decode sample_runtime 8 (Inr [0, 0, 0, 10, 0, 0, 0, 0, 0, 1, 2, 3, 4, 5, 6])
     = JObj [(str ''metadata'',
              JObj [(str ''message_length'', JInt 10), (str ''version'', JInt 0),
                    (str ''header_length'', JInt 0)]),
             (str ''headers'', JObj []),
             (str ''thrift'', create_empty_thrift_message),
             (str ''thrift_parse_error'', JBool True)]"
proof -
  let ?d = "[0, 0, 0, 10, 0, 0, 0, 0, 0, 1, 2, 3, 4, 5, 6] :: byte list"
  have p: "parse_data ?d None = Inr ([0, 0, 0, 10, 0, 0, 0, 0, 0], [1, 2, 3, 4, 5, 6])"
    by (simp add: parse_data_def frugal_split_def unpack_I_def bslice_def be_nat_def)
  have h: "decode_headers [0, 0, 0, 10, 0, 0, 0, 0, 0]
             = Inr (JObj [(str ''metadata'',
                           JObj [(str ''message_length'', JInt 10), (str ''version'', JInt 0),
                                 (str ''header_length'', JInt 0)]),
                          (str ''headers'', JObj [])])"
    by (simp add: decode_headers_def unpack_I_def unpack_B_def bslice_def be_nat_def
          header_loop_stop)
  have t: "decode_thrift_message sample_runtime 8 [1, 2, 3, 4, 5, 6] = create_empty_thrift_message"
    by (intro decode_thrift_message_absent) (simp add: candidates_def)
  show ?thesis
    by (simp add: decode_def decode_body_def p h t set_item_def has_key_def
          create_empty_thrift_message_def str_def)
qed

section \<open>Field failures in the message body\<close>


text \<open>
  \<open>field_run rt d s d' s'\<close>: the field loop of \<open>_extract_reply\<close>, started with depth
  \<open>d\<close> on the buffer \<open>s\<close>, decodes some fields without error and stands at the buffer
  \<open>s'\<close> with depth \<open>d'\<close>.
\<close>

inductive field_run :: "runtime \<Rightarrow> nat \<Rightarrow> byte list \<Rightarrow> nat \<Rightarrow> byte list \<Rightarrow> bool"
  for rt :: runtime where
  stand: "field_run rt d s d s"
| field: "readFieldBegin s = Inr ((field_type, field_id), s1) \<Longrightarrow> field_type \<noteq> T_STOP \<Longrightarrow>
         or_skip rt field_type
           (note_doc (str ''Unknown type '' @ str_int field_type @ str '' (skipped)''))
           (read_known rt d field_type s1) = Inr (v, s2) \<Longrightarrow>
         field_run rt d s2 d' s' \<Longrightarrow>
         field_run rt (Suc d) s d' s'"

lemma field_run_error:
  "field_run rt d s d' s' \<Longrightarrow> extract_fields rt d' s' = Inl e \<Longrightarrow> extract_fields rt d s = Inl e"
  by (induction rule: field_run.induct) simp_all

lemma extract_reply_error:
  "extract_fields rt d s = Inl e \<Longrightarrow> extract_reply rt d s = JObj [(str ''error'', JStr (exn_text rt e))]"
  by (simp add: extract_reply_def)

text \<open>
  C3 (amended).  A failure while reading a field of the message body is not recovered field
  by field.  When the body loop has decoded any number of fields and the next field header
  cannot be read, or the next field's value fails to decode (at any depth, or in
  \<open>protocol.skip\<close> after the placeholder for an unknown tag), \<open>_extract_reply\<close> catches
  the exception once and returns \<open>{"error": str(e)}\<close> as the whole body: the fields decoded
  before are dropped, and nothing is raised to the caller.  Inside a nested struct the failure
  of a field aborts that struct, and the failure of a nested struct is the failure of the field
  that holds it.
\<close>

theorem field_failure_replaces_body:
  "(field_run rt d s (Suc d') s' \<longrightarrow>
      (\<forall>e. readFieldBegin s' = Inl e \<longrightarrow>
           extract_reply rt d s = JObj [(str ''error'', JStr (exn_text rt e))])
    \<and> (\<forall>field_type field_id s1 e.
           readFieldBegin s' = Inr ((field_type, field_id), s1) \<and> field_type \<noteq> T_STOP
           \<and> or_skip rt field_type
                (note_doc (str ''Unknown type '' @ str_int field_type @ str '' (skipped)''))
                (read_known rt d' field_type s1) = Inl e
           \<longrightarrow> extract_reply rt d s = JObj [(str ''error'', JStr (exn_text rt e))]))
   \<and> (\<forall>field_type field_id s1 e.
         readFieldBegin s = Inr ((field_type, field_id), s1) \<and> field_type \<noteq> T_STOP
         \<and> or_skip rt field_type (note_doc (str ''Unknown type '' @ str_int field_type))
              (read_known rt d field_type s1) = Inl e
         \<longrightarrow> read_fields rt (Suc d) s = Inl e)
   \<and> (\<forall>e. read_fields rt d s = Inl e \<longrightarrow> read_known rt (Suc d) T_STRUCT s = Inl e)"
proof (intro conjI impI allI)
  fix e assume r: "field_run rt d s (Suc d') s'" and "readFieldBegin s' = Inl e"
  then have "extract_fields rt (Suc d') s' = Inl e" by simp
  from field_run_error[OF r this]
  show "extract_reply rt d s = JObj [(str ''error'', JStr (exn_text rt e))]"
    by (rule extract_reply_error)
next
  fix field_type field_id s1 e
  assume r: "field_run rt d s (Suc d') s'"
    and "readFieldBegin s' = Inr ((field_type, field_id), s1) \<and> field_type \<noteq> T_STOP
           \<and> or_skip rt field_type
                (note_doc (str ''Unknown type '' @ str_int field_type @ str '' (skipped)''))
                (read_known rt d' field_type s1) = Inl e"
  then have "extract_fields rt (Suc d') s' = Inl e" by simp
  from field_run_error[OF r this]
  show "extract_reply rt d s = JObj [(str ''error'', JStr (exn_text rt e))]"
    by (rule extract_reply_error)
next
  fix field_type field_id s1 e
  assume "readFieldBegin s = Inr ((field_type, field_id), s1) \<and> field_type \<noteq> T_STOP
         \<and> or_skip rt field_type (note_doc (str ''Unknown type '' @ str_int field_type))
              (read_known rt d field_type s1) = Inl e"
  then show "read_fields rt (Suc d) s = Inl e" by simp
next
  fix e assume "read_fields rt d s = Inl e"
  then show "read_known rt (Suc d) T_STRUCT s = Inl e" by simp
qed

theorem field_failure_replaces_body_witness:
  "extract_reply sample_runtime (Suc (Suc 6)) [2, 0, 1, 1, 11, 0, 2, 0, 0, 0, 5, 0x61]
     = JObj [(str ''error'', JStr (str ''decode error''))]"
proof -
  let ?s = "[2, 0, 1, 1, 11, 0, 2, 0, 0, 0, 5, 0x61] :: byte list"
  let ?s' = "[11, 0, 2, 0, 0, 0, 5, 0x61] :: byte list"
  have r: "field_run sample_runtime (Suc (Suc 6)) ?s (Suc 6) ?s'"
  proof (rule field_run.field[OF _ _ _ field_run.stand])
    show "readFieldBegin ?s = Inr ((2, 1), [1, 11, 0, 2, 0, 0, 0, 5, 0x61])"
      by (simp add: wire_defs)
    show "(2::int) \<noteq> T_STOP" by simp
    show "or_skip sample_runtime 2
            (note_doc (str ''Unknown type '' @ str_int 2 @ str '' (skipped)''))
            (read_known sample_runtime (Suc 6) 2 [1, 11, 0, 2, 0, 0, 0, 5, 0x61])
          = Inr (JBool True, ?s')"
      by (simp add: wire_defs or_skip_def)
  qed
  have f: "readFieldBegin ?s' = Inr ((11, 2), [0, 0, 0, 5, 0x61]) \<and> (11::int) \<noteq> T_STOP
         \<and> or_skip sample_runtime 11
              (note_doc (str ''Unknown type '' @ str_int 11 @ str '' (skipped)''))
              (read_known sample_runtime 6 11 [0, 0, 0, 5, 0x61]) = Inl EOFError"
    by (simp add: wire_defs or_skip_def)
  have x: "exn_text sample_runtime EOFError = str ''decode error''"
    by (simp add: sample_runtime_def)
  have "extract_reply sample_runtime (Suc (Suc 6)) ?s
          = JObj [(str ''error'', JStr (exn_text sample_runtime EOFError))]"
    using field_failure_replaces_body[of sample_runtime "Suc (Suc 6)" ?s 6 ?s'] r f
    by blast
  then show ?thesis by (simp only: x)
qed

text \<open>
  C3 as stated fails on a truncated field: the body \<open>08 0001 0000002A 08 0002 0000\<close> holds
  one good \<open>i32\<close> field (which alone, followed by a stop byte, decodes to one field) and a
  second one cut short.  The result is the error document, with no \<open>fields\<close> entry and no
  placeholder for the bad field.
\<close>

theorem truncated_field_counterexample:
  "extract_fields sample_runtime 8 [8, 0, 1, 0, 0, 0, 42, 0]
     = Inr ([JObj [(str ''field_id'', JInt 1), (str ''field_type'', JStr (str ''i32'')),
                   (str ''value'', JInt 42)]], [])
   \<and> extract_reply sample_runtime 8 [8, 0, 1, 0, 0, 0, 42, 8, 0, 2, 0, 0]
     = JObj [(str ''error'', JStr (str ''decode error''))]"
  by (simp add: wire_defs doc_defs extract_reply_def)

section \<open>Writing the Thrift binary protocol\<close>

text \<open>
  The write operations of \<open>TBinaryProtocol\<close> of the Thrift library, each as the bytes it
  appends to the transport or the exception it raises.  \<open>writeStructBegin\<close>,
  \<open>writeStructEnd\<close>, \<open>writeFieldEnd\<close>, \<open>writeListEnd\<close>, \<open>writeSetEnd\<close>, \<open>writeMapEnd\<close>
  and \<open>writeMessageEnd\<close> write nothing there.
\<close>

text \<open>
  \<open>struct.pack\<close> with the formats \<open>!b\<close>, \<open>!h\<close>, \<open>!i\<close> and \<open>!q\<close>: the value must
  fit the signed range of the width.
\<close>

fun be_bytes :: "nat \<Rightarrow> nat \<Rightarrow> byte list" where
  "be_bytes 0 v = []"
| "be_bytes (Suc n) v = be_bytes n (v div 256) @ [of_nat v]"

definition pack_int :: "nat \<Rightarrow> int \<Rightarrow> exn + byte list" where
  "pack_int n v =
     (if - (2 ^ (8 * n - 1)) \<le> v \<and> v < 2 ^ (8 * n - 1)
      then Inr (be_bytes n (nat (v mod 2 ^ (8 * n))))
      else Inl StructError)"

definition writeByte :: "int \<Rightarrow> exn + byte list" where "writeByte = pack_int 1"
definition writeI16 :: "int \<Rightarrow> exn + byte list" where "writeI16 = pack_int 2"
definition writeI32 :: "int \<Rightarrow> exn + byte list" where "writeI32 = pack_int 4"
definition writeI64 :: "int \<Rightarrow> exn + byte list" where "writeI64 = pack_int 8"

definition writeBool :: "bool \<Rightarrow> exn + byte list" where
  "writeBool b = writeByte (if b then 1 else 0)"

definition writeDouble :: "64 word \<Rightarrow> exn + byte list" where
  "writeDouble x = Inr (be_bytes 8 (unat x))"

text \<open>Two writes in a row: the bytes of both, or the first exception.\<close>

definition then_write :: "exn + byte list \<Rightarrow> exn + byte list \<Rightarrow> exn + byte list" where
  "then_write a b =
     (case a of Inl e \<Rightarrow> Inl e
      | Inr x \<Rightarrow> (case b of Inl e \<Rightarrow> Inl e | Inr y \<Rightarrow> Inr (x @ y)))"

definition writeString :: "pystr \<Rightarrow> exn + byte list" where
  "writeString s =
     (case utf8_encode s of Inl e \<Rightarrow> Inl e
      | Inr b \<Rightarrow> then_write (writeI32 (int (length b))) (Inr b))"

definition writeFieldStop :: "exn + byte list" where
  "writeFieldStop = writeByte T_STOP"

text \<open>A type tag that may be \<open>None\<close>, as \<open>FIELD_TYPE_MAP.get\<close> returns it.\<close>

definition writeTag :: "int option \<Rightarrow> exn + byte list" where
  "writeTag t = (case t of None \<Rightarrow> Inl StructError | Some v \<Rightarrow> writeByte v)"

definition writeListBegin :: "int option \<Rightarrow> nat \<Rightarrow> exn + byte list" where
  "writeListBegin etype n = then_write (writeTag etype) (writeI32 (int n))"

definition writeSetBegin :: "int option \<Rightarrow> nat \<Rightarrow> exn + byte list" where
  "writeSetBegin = writeListBegin"

definition writeMapBegin :: "int option \<Rightarrow> int option \<Rightarrow> nat \<Rightarrow> exn + byte list" where
  "writeMapBegin ktype vtype n =
     then_write (writeTag ktype) (then_write (writeTag vtype) (writeI32 (int n)))"

section \<open>Python values in the encoder\<close>

text \<open>
  The conversions of Python that the encoder applies to document values.  Those on integers,
  booleans and strings are written out; those that need floating point or Python's number
  and object syntax are parameters.
\<close>

record builtins =
  int_of_float :: "64 word \<Rightarrow> exn + int"
  int_of_str :: "pystr \<Rightarrow> exn + int"
  float_of_int :: "int \<Rightarrow> exn + 64 word"
  float_of_str :: "pystr \<Rightarrow> exn + 64 word"
  repr :: "json \<Rightarrow> pystr"

definition py_bool :: "json \<Rightarrow> bool" where
  "py_bool v =
     (case v of
        JNull \<Rightarrow> False
      | JBool b \<Rightarrow> b
      | JInt n \<Rightarrow> n \<noteq> 0
      | JFloat x \<Rightarrow> x \<noteq> 0 \<and> x \<noteq> 0x8000000000000000
      | JStr s \<Rightarrow> s \<noteq> []
      | JList xs \<Rightarrow> xs \<noteq> []
      | JObj kvs \<Rightarrow> kvs \<noteq> [])"

definition py_int :: "builtins \<Rightarrow> json \<Rightarrow> exn + int" where
  "py_int bi v =
     (case v of
        JInt n \<Rightarrow> Inr n
      | JBool b \<Rightarrow> Inr (if b then 1 else 0)
      | JFloat x \<Rightarrow> int_of_float bi x
      | JStr s \<Rightarrow> int_of_str bi s
      | _ \<Rightarrow> Inl (TypeError []))"

definition py_float :: "builtins \<Rightarrow> json \<Rightarrow> exn + 64 word" where
  "py_float bi v =
     (case v of
        JFloat x \<Rightarrow> Inr x
      | JInt n \<Rightarrow> float_of_int bi n
      | JBool b \<Rightarrow> float_of_int bi (if b then 1 else 0)
      | JStr s \<Rightarrow> float_of_str bi s
      | _ \<Rightarrow> Inl (TypeError []))"

definition py_str :: "builtins \<Rightarrow> json \<Rightarrow> pystr" where
  "py_str bi v =
     (case v of
        JStr s \<Rightarrow> s
      | JInt n \<Rightarrow> str_int n
      | JBool b \<Rightarrow> str_bool b
      | JNull \<Rightarrow> str ''None''
      | _ \<Rightarrow> repr bi v)"

text \<open>\<open>d.get(k)\<close>, \<open>d.get(k, default)\<close>, \<open>d[k]\<close> and \<open>k in d\<close> for a string \<open>k\<close>.\<close>

definition dget :: "json \<Rightarrow> pystr \<Rightarrow> json \<Rightarrow> exn + json" where
  "dget obj k dflt =
     (case obj of
        JObj kvs \<Rightarrow> Inr (case map_of kvs k of None \<Rightarrow> dflt | Some v \<Rightarrow> v)
      | _ \<Rightarrow> Inl AttributeError)"

definition ditem :: "json \<Rightarrow> pystr \<Rightarrow> exn + json" where
  "ditem obj k =
     (case obj of
        JObj kvs \<Rightarrow> (case map_of kvs k of None \<Rightarrow> Inl (KeyError k) | Some v \<Rightarrow> Inr v)
      | _ \<Rightarrow> Inl (TypeError []))"

definition py_in :: "pystr \<Rightarrow> json \<Rightarrow> exn + bool" where
  "py_in k obj =
     (case obj of
        JObj kvs \<Rightarrow> Inr (k \<in> fst ` set kvs)
      | JList xs \<Rightarrow> Inr (JStr k \<in> set xs)
      | JStr s \<Rightarrow> Inr (contains s k)
      | _ \<Rightarrow> Inl (TypeError []))"

definition is_dict :: "json \<Rightarrow> bool" where
  "is_dict v = (case v of JObj kvs \<Rightarrow> True | _ \<Rightarrow> False)"

text \<open>Iterating over a value: the elements of a list, the keys of a dict, the characters
  of a string; anything else is not iterable.\<close>

definition iter :: "json \<Rightarrow> exn + json list" where
  "iter v =
     (case v of
        JList xs \<Rightarrow> Inr xs
      | JObj kvs \<Rightarrow> Inr (map (JStr \<circ> fst) kvs)
      | JStr s \<Rightarrow> Inr (map (\<lambda>c. JStr [c]) s)
      | _ \<Rightarrow> Inl (TypeError []))"

text \<open>\<open>value or []\<close>.\<close>

definition or_empty :: "json \<Rightarrow> json" where
  "or_empty v = (if py_bool v then v else JList [])"

text \<open>\<open>isinstance(item, (str, int, float, bool))\<close> and the three single tests; a Python
  \<open>bool\<close> is also an \<open>int\<close>.\<close>

definition is_prim :: "json \<Rightarrow> bool" where
  "is_prim v = (case v of JStr s \<Rightarrow> True | JInt n \<Rightarrow> True | JFloat x \<Rightarrow> True
                | JBool b \<Rightarrow> True | _ \<Rightarrow> False)"

definition is_bool :: "json \<Rightarrow> bool" where
  "is_bool v = (case v of JBool b \<Rightarrow> True | _ \<Rightarrow> False)"

definition is_int :: "json \<Rightarrow> bool" where
  "is_int v = (case v of JInt n \<Rightarrow> True | JBool b \<Rightarrow> True | _ \<Rightarrow> False)"

definition is_float :: "json \<Rightarrow> bool" where
  "is_float v = (case v of JFloat x \<Rightarrow> True | _ \<Rightarrow> False)"

text \<open>\<open>FIELD_TYPE_MAP\<close>, and \<open>FIELD_TYPE_MAP.get(x)\<close> for a document value \<open>x\<close>: a list
  or dict is unhashable.\<close>

definition FIELD_TYPE_MAP :: "(pystr \<times> int) list" where
  "FIELD_TYPE_MAP =
     [(str ''bool'', T_BOOL), (str ''i8'', T_BYTE), (str ''i16'', T_I16), (str ''i32'', T_I32),
      (str ''i64'', T_I64), (str ''double'', T_DOUBLE), (str ''string'', T_STRING),
      (str ''struct'', T_STRUCT), (str ''map'', T_MAP), (str ''set'', T_SET),
      (str ''list'', T_LIST)]"

definition type_get :: "json \<Rightarrow> exn + int option" where
  "type_get x =
     (case x of
        JStr s \<Rightarrow> Inr (map_of FIELD_TYPE_MAP s)
      | JList xs \<Rightarrow> Inl (TypeError [])
      | JObj kvs \<Rightarrow> Inl (TypeError [])
      | _ \<Rightarrow> Inr None)"

text \<open>Writing each element of a list in turn.\<close>

fun write_each :: "('a \<Rightarrow> exn + byte list) \<Rightarrow> 'a list \<Rightarrow> exn + byte list" where
  "write_each f [] = Inr []"
| "write_each f (x # xs) = then_write (f x) (write_each f xs)"

lemma write_each_cong [fundef_cong]:
  "xs = ys \<Longrightarrow> (\<And>x. x \<in> set ys \<Longrightarrow> f x = g x) \<Longrightarrow> write_each f xs = write_each g ys"
  by (induction ys arbitrary: xs) auto

section \<open>The encoder: \<open>write_value\<close>, \<open>write_field_value\<close>, \<open>write_struct\<close>\<close>

definition andthen :: "exn + 'a \<Rightarrow> ('a \<Rightarrow> exn + 'b) \<Rightarrow> exn + 'b" where
  "andthen m f = (case m of Inl e \<Rightarrow> Inl e | Inr x \<Rightarrow> f x)"

lemma andthen_cong [fundef_cong]:
  "m = m' \<Longrightarrow> (\<And>x. m' = Inr x \<Longrightarrow> f x = g x) \<Longrightarrow> andthen m f = andthen m' g"
  by (auto simp: andthen_def split: sum.splits)

text \<open>\<open>isinstance(item, dict) and "fields" in item\<close>, and the test on a map entry.\<close>

definition has_fields :: "json \<Rightarrow> bool" where
  "has_fields item = (case item of JObj kvs \<Rightarrow> str ''fields'' \<in> fst ` set kvs | _ \<Rightarrow> False)"

definition is_entry :: "json \<Rightarrow> bool" where
  "is_entry entry =
     (case entry of
        JObj kvs \<Rightarrow> str ''key'' \<in> fst ` set kvs \<and> str ''value'' \<in> fst ` set kvs
      | _ \<Rightarrow> False)"

text \<open>\<open>FIELD_TYPE_MAP[x]\<close>.\<close>

definition type_item :: "json \<Rightarrow> exn + int" where
  "type_item x =
     andthen (type_get x)
       (\<lambda>t. case t of
               Some v \<Rightarrow> Inr v
             | None \<Rightarrow> Inl (KeyError (case x of JStr s \<Rightarrow> s | _ \<Rightarrow> [])))"

text \<open>An integer argument of \<open>struct.pack\<close> taken from the document as it is.\<close>

definition pack_json :: "nat \<Rightarrow> json \<Rightarrow> exn + byte list" where
  "pack_json n v =
     (case v of
        JInt i \<Rightarrow> pack_int n i
      | JBool b \<Rightarrow> pack_int n (if b then 1 else 0)
      | _ \<Rightarrow> Inl StructError)"

fun write_value :: "builtins \<Rightarrow> nat \<Rightarrow> int \<Rightarrow> json \<Rightarrow> exn + byte list"
  and write_field_value :: "builtins \<Rightarrow> nat \<Rightarrow> int option \<Rightarrow> json \<Rightarrow> exn + byte list"
  and write_struct :: "builtins \<Rightarrow> nat \<Rightarrow> json \<Rightarrow> exn + byte list" where
  "write_value bi 0 thrift_type field = Inl RecursionError"
| "write_value bi (Suc d) thrift_type field =
     andthen (dget field (str ''value'') JNull) (\<lambda>v.
       if thrift_type = T_BOOL then writeBool (if v \<noteq> JNull then py_bool v else False)
       else if thrift_type = T_BYTE then
         andthen (if v \<noteq> JNull then py_int bi v else Inr 0) writeByte
       else if thrift_type = T_I16 then
         andthen (if v \<noteq> JNull then py_int bi v else Inr 0) writeI16
       else if thrift_type = T_I32 then
         andthen (if v \<noteq> JNull then py_int bi v else Inr 0) writeI32
       else if thrift_type = T_I64 then
         andthen (if v \<noteq> JNull then py_int bi v else Inr 0) writeI64
       else if thrift_type = T_DOUBLE then
         andthen (if v \<noteq> JNull then py_float bi v else Inr 0) writeDouble
       else if thrift_type = T_STRING then
         writeString (if v = JNull then [] else py_str bi v)
       else if thrift_type = T_STRUCT then
         (if v = JNull \<or> \<not> py_bool v then writeFieldStop
          else andthen (dget v (str ''fields'') (JList [])) (write_struct bi d))
       else if thrift_type = T_MAP then
         andthen (dget field (str ''key_type'') JNull) (\<lambda>key_type_str.
         andthen (dget field (str ''value_type'') JNull) (\<lambda>value_type_str.
         andthen (type_get (if \<not> py_bool key_type_str then JStr (str ''string'')
                            else key_type_str)) (\<lambda>key_type.
         andthen (type_get (if \<not> py_bool value_type_str then JStr (str ''string'')
                            else value_type_str)) (\<lambda>value_type.
         andthen (case v of
                    JNull \<Rightarrow> Inr []
                  | JObj kvs \<Rightarrow>
                      Inr (map (\<lambda>kv. JObj [(str ''key'', JStr (fst kv)),
                                             (str ''value'', snd kv)]) kvs)
                  | _ \<Rightarrow> iter (or_empty v)) (\<lambda>entries.
           then_write (writeMapBegin key_type value_type (length entries))
             (write_each
                (\<lambda>entry.
                   if is_entry entry then
                     then_write
                       (andthen (ditem entry (str ''key'')) (write_field_value bi d key_type))
                       (andthen (ditem entry (str ''value'')) (write_field_value bi d value_type))
                   else Inr [])
                entries))))))
       else if thrift_type = T_SET then
         andthen (iter (or_empty v)) (\<lambda>items.
           if list_all is_prim items then
             then_write (writeSetBegin (Some T_STRING) (length items))
               (write_each (write_field_value bi d (Some T_STRING)) items)
           else
             then_write (writeSetBegin (Some T_STRUCT) (length items))
               (write_each
                  (\<lambda>item.
                     if has_fields item
                     then andthen (ditem item (str ''fields'')) (write_struct bi d)
                     else write_field_value bi d (Some T_STRUCT) item)
                  items))
       else if thrift_type = T_LIST then
         andthen (dget field (str ''element_type'') JNull) (\<lambda>element_type_str.
         andthen
           (if \<not> py_bool element_type_str then
              andthen (if py_bool v then iter v else Inr [])
                (\<lambda>items.
                   Inr (if items \<noteq> [] \<and> list_all is_prim items then
                          (if list_all is_bool items then T_BOOL
                           else if list_all is_int items then T_I32
                           else if list_all is_float items then T_DOUBLE
                           else T_STRING)
                        else T_STRUCT))
            else
              andthen (type_get element_type_str)
                (\<lambda>t. case t of
                        None \<Rightarrow> Inl (ValueError (str ''Unsupported list element type: ''
                                                     @ py_str bi element_type_str))
                      | Some element_type \<Rightarrow> Inr element_type))
           (\<lambda>element_type.
         andthen (iter (or_empty v)) (\<lambda>items.
           then_write (writeListBegin (Some element_type) (length items))
             (write_each
                (\<lambda>item.
                   if element_type = T_STRUCT then
                     (if has_fields item
                      then andthen (ditem item (str ''fields'')) (write_struct bi d)
                      else write_field_value bi d (Some element_type) item)
                   else write_field_value bi d (Some element_type) item)
                items))))
       else Inl (ValueError (str ''Unsupported thrift type: '' @ str_int thrift_type)))"
| "write_field_value bi 0 thrift_type v = Inl RecursionError"
| "write_field_value bi (Suc d) thrift_type v =
     (if thrift_type = Some T_BOOL then writeBool (py_bool v)
      else if thrift_type = Some T_BYTE then andthen (py_int bi v) writeByte
      else if thrift_type = Some T_I16 then andthen (py_int bi v) writeI16
      else if thrift_type = Some T_I32 then andthen (py_int bi v) writeI32
      else if thrift_type = Some T_I64 then andthen (py_int bi v) writeI64
      else if thrift_type = Some T_DOUBLE then andthen (py_float bi v) writeDouble
      else if thrift_type = Some T_STRING then
        writeString (if v = JNull then [] else py_str bi v)
      else if thrift_type = Some T_STRUCT then
        andthen (py_in (str ''fields'') v) (\<lambda>b.
          if b then andthen (ditem v (str ''fields'')) (write_struct bi d)
          else writeFieldStop)
      else Inl (ValueError (str ''Unsupported simple thrift type: ''
                            @ (case thrift_type of None \<Rightarrow> str ''None''
                               | Some t \<Rightarrow> str_int t))))"
| "write_struct bi 0 fields_json = Inl RecursionError"
| "write_struct bi (Suc d) fields_json =
     andthen (iter fields_json) (\<lambda>fs.
       then_write
         (write_each
            (\<lambda>field.
               andthen (ditem field (str ''field_id'')) (\<lambda>field_id.
               andthen (ditem field (str ''field_type'')) (\<lambda>ftype_str.
               andthen (type_item ftype_str) (\<lambda>ftype.
                 then_write (then_write (writeByte ftype) (pack_json 2 field_id))
                   (write_value bi d ftype field)))))
            fs)
         writeFieldStop)"

text \<open>\<open>writeMessageBegin\<close> of \<open>TBinaryProtocol\<close> (\<open>strictWrite\<close>): the version word with the
  message type, the name, the sequence id.\<close>

definition writeMessageBegin :: "json \<Rightarrow> int \<Rightarrow> json \<Rightarrow> exn + byte list" where
  "writeMessageBegin name type seqid =
     then_write (writeI32 (type - 2147418112))
       (then_write (case name of JStr s \<Rightarrow> writeString s | _ \<Rightarrow> Inl (TypeError []))
          (pack_json 4 seqid))"

definition msg_type_map :: "(pystr \<times> int) list" where
  "msg_type_map = [(str ''call'', 1), (str ''reply'', 2), (str ''exception'', 3),
                   (str ''oneway'', 4)]"

definition msg_type_item :: "json \<Rightarrow> exn + int" where
  "msg_type_item x =
     (case x of
        JStr s \<Rightarrow> (case map_of msg_type_map s of None \<Rightarrow> Inl (KeyError s) | Some t \<Rightarrow> Inr t)
      | JList xs \<Rightarrow> Inl (TypeError [])
      | JObj kvs \<Rightarrow> Inl (TypeError [])
      | _ \<Rightarrow> Inl (KeyError []))"

text \<open>
  \<open>write_thrift_message\<close> where \<open>args.compact\<close> is false, so that the protocol object is a
  \<open>TBinaryProtocol\<close>: the bytes of the transport at the end, or the exception raised.
\<close>

definition write_thrift_message :: "builtins \<Rightarrow> nat \<Rightarrow> json \<Rightarrow> exn + byte list" where
  "write_thrift_message bi d thrift_json =
     andthen (ditem thrift_json (str ''method'')) (\<lambda>method_name.
     andthen (ditem thrift_json (str ''type'')) (\<lambda>msg_type_str.
     andthen (ditem thrift_json (str ''seqid'')) (\<lambda>seqid.
     andthen (msg_type_item msg_type_str) (\<lambda>msg_type.
       then_write (writeMessageBegin method_name msg_type seqid)
         (andthen (ditem thrift_json (str ''args'')) (\<lambda>args.
            if py_bool args
            then andthen (ditem args (str ''fields'')) (write_struct bi d)
            else Inr []))))))"

definition sample_builtins :: builtins where
  "sample_builtins =
     \<lparr> int_of_float = (\<lambda>x. Inl (ValueError [])),
       int_of_str = (\<lambda>s. Inl (ValueError [])),
       float_of_int = (\<lambda>n. Inl (ValueError [])),
       float_of_str = (\<lambda>s. Inl (ValueError [])),
       repr = (\<lambda>v. []) \<rparr>"

section \<open>Evaluating the encoder\<close>

lemmas write_unfold [simp] =
  write_value.simps(2)[of _ "pred_numeral k", folded numeral_eq_Suc]
  write_field_value.simps(2)[of _ "pred_numeral k", folded numeral_eq_Suc]
  write_struct.simps(2)[of _ "pred_numeral k", folded numeral_eq_Suc]
  be_bytes.simps(2)[of "pred_numeral k", folded numeral_eq_Suc]
  for k

lemmas write_defs = andthen_def then_write_def pack_int_def pack_json_def writeByte_def
  writeI16_def writeI32_def writeI64_def writeBool_def writeDouble_def writeString_def
  writeFieldStop_def writeTag_def writeListBegin_def writeSetBegin_def writeMapBegin_def
  writeMessageBegin_def msg_type_map_def msg_type_item_def write_thrift_message_def
  py_bool_def py_int_def py_float_def py_str_def dget_def ditem_def py_in_def is_dict_def
  iter_def or_empty_def is_prim_def is_bool_def is_int_def is_float_def FIELD_TYPE_MAP_def
  type_get_def type_item_def has_fields_def
  is_entry_def sample_builtins_def utf8_char_def

section \<open>The type tags of containers\<close>

lemma writeTag_small:
  "0 \<le> t \<Longrightarrow> t < 128 \<Longrightarrow> writeTag (Some t) = Inr [of_int t]"
  by (simp add: writeTag_def writeByte_def pack_int_def)

lemma then_write_Inr:
  "then_write (Inr a) r = Inr bs \<Longrightarrow> take (length a) bs = a"
  by (auto simp: then_write_def split: sum.splits)

lemma list_begin_tag:
  assumes "0 \<le> t" "t < 128" "then_write (writeListBegin (Some t) n) r = Inr bs"
  shows "take 1 bs = [of_int t]"
  using assms
  by (auto simp: writeListBegin_def writeTag_small then_write_def split: sum.splits)

lemma map_begin_tag:
  assumes "0 \<le> k" "k < 128" "0 \<le> v" "v < 128"
    "then_write (writeMapBegin (Some k) (Some v) n) r = Inr bs"
  shows "take 2 bs = [of_int k, of_int v]"
  using assms
  by (auto simp: writeMapBegin_def writeTag_small then_write_def split: sum.splits)

lemma list_tag:
  assumes v: "map_of kvs (str ''value'') = Some (JList items)
              \<or> map_of kvs (str ''value'') = None \<and> items = []"
    and e: "map_of kvs (str ''element_type'') = None"
    and w: "write_value bi (Suc d) T_LIST (JObj kvs) = Inr bs"
  shows "take 1 bs =
           [if items = [] \<or> \<not> list_all is_prim items then 12
            else if list_all is_bool items then 2
            else if list_all is_int items then 8
            else if list_all is_float items then 4
            else 11]"
proof -
  define t :: int where "t =
     (if items \<noteq> [] \<and> list_all is_prim items then
        (if list_all is_bool items then T_BOOL
         else if list_all is_int items then T_I32
         else if list_all is_float items then T_DOUBLE
         else T_STRING)
      else T_STRUCT)"
  have t: "0 \<le> t" "t < 128" by (simp_all add: t_def)
  obtain r where "then_write (writeListBegin (Some t) (length items)) r = Inr bs"
    using v e w
    by (auto simp: dget_def andthen_def py_bool_def or_empty_def iter_def t_def
             simp del: write_each.simps split: if_splits)
  from list_begin_tag[OF t this] show ?thesis
    by (simp add: t_def)
qed

lemma set_tag:
  assumes v: "map_of kvs (str ''value'') = Some (JList items)
              \<or> map_of kvs (str ''value'') = None \<and> items = []"
    and w: "write_value bi (Suc d) T_SET (JObj kvs) = Inr bs"
  shows "take 1 bs = [if list_all is_prim items then 11 else 12]"
proof -
  define t :: int where "t = (if list_all is_prim items then T_STRING else T_STRUCT)"
  have t: "0 \<le> t" "t < 128" by (simp_all add: t_def)
  obtain r where "then_write (writeListBegin (Some t) (length items)) r = Inr bs"
    using v w
    by (auto simp: dget_def andthen_def py_bool_def or_empty_def iter_def t_def
                   writeSetBegin_def
             simp del: write_each.simps split: if_splits)
  from list_begin_tag[OF t this] show ?thesis
    by (simp add: t_def)
qed

lemma map_tag:
  assumes v: "map_of kvs (str ''value'') = Some (JList items)
              \<or> map_of kvs (str ''value'') = None \<and> items = []"
    and k: "map_of kvs (str ''key_type'') = None"
           "map_of kvs (str ''value_type'') = None"
    and w: "write_value bi (Suc d) T_MAP (JObj kvs) = Inr bs"
  shows "take 2 bs = [11, 11]"
proof -
  have s: "type_get (JStr (str ''string'')) = Inr (Some T_STRING)"
    by (simp add: type_get_def FIELD_TYPE_MAP_def str_def)
  obtain r where
    "then_write (writeMapBegin (Some T_STRING) (Some T_STRING) (length items)) r = Inr bs"
    using v k w
    by (auto simp: dget_def andthen_def py_bool_def or_empty_def iter_def s
             simp del: write_each.simps split: if_splits)
  from map_begin_tag[OF _ _ _ _ this] show ?thesis
    by simp
qed

text \<open>
  C7 (amended).  Where a container field of the input document names no element, key or
  value type, the type tag written is this.  For a list it is inferred from the items: Struct
  for an absent or empty list and for one with an item that is not a scalar
  (\<open>str\<close>, \<open>int\<close>, \<open>float\<close>, \<open>bool\<close>); otherwise Bool when every item is a \<open>bool\<close>, else I32
  when every item is an \<open>int\<close>, else Double when every item is a \<open>float\<close>, else String.
  For a set nothing is inferred: the tag is String when every item is a scalar, also for an
  absent or empty set, and Struct otherwise.  For a map the key and the value tag are both
  String, whatever the entries are.  The tags are read off the bytes of a successful
  \<open>write_value\<close>.
\<close>

theorem container_element_types:
  assumes "map_of kvs (str ''value'') = Some (JList items)
           \<or> map_of kvs (str ''value'') = None \<and> items = []"
  shows "(map_of kvs (str ''element_type'') = None
            \<and> write_value bi (Suc d) T_LIST (JObj kvs) = Inr bs
          \<longrightarrow> take 1 bs =
                [if items = [] \<or> \<not> list_all is_prim items then 12
                 else if list_all is_bool items then 2
                 else if list_all is_int items then 8
                 else if list_all is_float items then 4
                 else 11])
       \<and> (write_value bi (Suc d) T_SET (JObj kvs) = Inr bs'
          \<longrightarrow> take 1 bs' = [if list_all is_prim items then 11 else 12])
       \<and> (map_of kvs (str ''key_type'') = None \<and> map_of kvs (str ''value_type'') = None
            \<and> write_value bi (Suc d) T_MAP (JObj kvs) = Inr bs''
          \<longrightarrow> take 2 bs'' = [11, 11])"
  using list_tag[OF assms] set_tag[OF assms] map_tag[OF assms] by blast

theorem container_element_types_witness:
  "(map_of [(str ''value'', JList [JInt 1, JInt 2])] (str ''value'')
      = Some (JList [JInt 1, JInt 2])
    \<and> map_of [(str ''value'', JList [JInt 1, JInt 2])] (str ''element_type'') = None
    \<and> map_of [(str ''value'', JList [JInt 1, JInt 2])] (str ''key_type'') = None
    \<and> map_of [(str ''value'', JList [JInt 1, JInt 2])] (str ''value_type'') = None
    \<and> write_value sample_builtins 4 T_LIST (JObj [(str ''value'', JList [JInt 1, JInt 2])])
        = Inr [8, 0, 0, 0, 2, 0, 0, 0, 1, 0, 0, 0, 2]
    \<and> write_value sample_builtins 4 T_SET (JObj [(str ''value'', JList [JInt 1, JInt 2])])
        = Inr [11, 0, 0, 0, 2, 0, 0, 0, 1, 0x31, 0, 0, 0, 1, 0x32]
    \<and> write_value sample_builtins 4 T_MAP (JObj [(str ''value'', JList [JInt 1, JInt 2])])
        = Inr [11, 11, 0, 0, 0, 2])
   \<and> take 1 [8, 0, 0, 0, 2, 0, 0, 0, 1, 0, 0, 0, 2 :: byte] = [8]
   \<and> take 1 [11, 0, 0, 0, 2, 0, 0, 0, 1, 0x31, 0, 0, 0, 1, 0x32 :: byte] = [11]
   \<and> take 2 [11, 11, 0, 0, 0, 2 :: byte] = [11, 11]"
proof -
  let ?kvs = "[(str ''value'', JList [JInt 1, JInt 2])]"
  have l: "write_value sample_builtins (Suc 3) T_LIST (JObj ?kvs)
             = Inr [8, 0, 0, 0, 2, 0, 0, 0, 1, 0, 0, 0, 2]"
    by (simp add: write_defs doc_defs)
  have s: "write_value sample_builtins (Suc 3) T_SET (JObj ?kvs)
             = Inr [11, 0, 0, 0, 2, 0, 0, 0, 1, 0x31, 0, 0, 0, 1, 0x32]"
    by (simp add: write_defs doc_defs)
  have m: "write_value sample_builtins (Suc 3) T_MAP (JObj ?kvs) = Inr [11, 11, 0, 0, 0, 2]"
    by (simp add: write_defs doc_defs)
  have h: "map_of ?kvs (str ''value'') = Some (JList [JInt 1, JInt 2])"
      "map_of ?kvs (str ''element_type'') = None"
      "map_of ?kvs (str ''key_type'') = None"
      "map_of ?kvs (str ''value_type'') = None"
    by (simp_all add: str_def)
  have n: "Suc 3 = 4" by simp
  from container_element_types[of ?kvs "[JInt 1, JInt 2]" sample_builtins 3, OF disjI1, OF h(1)]
    l s m h
  show ?thesis unfolding n by simp
qed

text \<open>
  C7 as stated fails on the set \<open>[1, 2]\<close>: its items are all integers, the claim has the
  element type I32 (tag \<open>08\<close>), and \<open>write_value\<close> writes the tag String (\<open>0B\<close>) and the
  items as the strings \<open>"1"\<close> and \<open>"2"\<close>, while the same items as a list are written with the
  tag I32; and the empty list is written with the tag Struct (\<open>0C\<close>), not String.
\<close>

theorem set_of_integers_counterexample:
  "write_value sample_builtins 4 T_SET (JObj [(str ''value'', JList [JInt 1, JInt 2])])
     = Inr [0x0B, 0, 0, 0, 2, 0, 0, 0, 1, 0x31, 0, 0, 0, 1, 0x32]
   \<and> write_value sample_builtins 4 T_LIST (JObj [(str ''value'', JList [JInt 1, JInt 2])])
     = Inr [0x08, 0, 0, 0, 2, 0, 0, 0, 1, 0, 0, 0, 2]
   \<and> write_value sample_builtins 4 T_LIST (JObj [(str ''value'', JList [])])
     = Inr [0x0C, 0, 0, 0, 0]"
  by (simp add: write_defs doc_defs)

end
